theory Spec2Isabelle
  imports Main "HOL-Library.Word" "HOL-Library.Signed_Division"
begin

section \<open>Data model of dmini.c\<close>

text \<open>
  A C string is modelled by the list of its bytes before the terminating NUL, a nullable
  \<^verbatim>\<open>char*\<close> by \<^typ>\<open>string option\<close> with \<^term>\<open>None\<close> for \<^verbatim>\<open>NULL\<close>.
  The singly linked lists of pairs and of sections become HOL lists in link order; a
  pointer to a node of such a list is the node's index. \<^verbatim>\<open>struct dmini_context\<close> holds
  only the head of the section list, so a non-null context is that list, and a nullable
  \<^verbatim>\<open>dmini_context_t\<close> is a \<open>dmini_context option\<close>.
\<close>

datatype status =
    DMINI_OK
  | DMINI_ERR_GENERAL
  | DMINI_ERR_MEMORY
  | DMINI_ERR_INVALID
  | DMINI_ERR_NOT_FOUND
  | DMINI_ERR_FILE

record dmini_pair =
  pair_key :: string
  pair_value :: "string option"

record dmini_section =
  sec_name :: "string option"
  sec_pairs :: "dmini_pair list"

type_synonym dmini_context = "dmini_section list"

text \<open>The C type \<^verbatim>\<open>int\<close>: 32 bits, two's complement.\<close>

type_synonym c_int = "32 word"

subsection \<open>The allocator\<close>

text \<open>
  \<^verbatim>\<open>Dmod_Malloc\<close> belongs to the platform. Its behaviour is a parameter of the model:
  a \<open>heap\<close> lists the outcomes of the coming calls (\<^term>\<open>True\<close>: a block is returned),
  and once the list is used up every further call succeeds. \<^verbatim>\<open>Dmod_Free\<close> has no
  effect on the contents of a context and is left out.
\<close>

type_synonym heap = "bool list"

definition Dmod_Malloc :: "heap \<Rightarrow> bool \<times> heap" where
  "Dmod_Malloc h = (case h of [] \<Rightarrow> (True, []) | b # h' \<Rightarrow> (b, h'))"

definition alloc_ok :: "heap \<Rightarrow> bool" where
  "alloc_ok h = list_all (\<lambda>b. b) h"

section \<open>Helper functions\<close>

definition is_space :: "char \<Rightarrow> bool" where
  "is_space c = (c = CHR '' '' \<or> c = CHR 0x09 \<or> c = CHR 0x0D \<or> c = CHR 0x0A)"

text \<open>
  \<^verbatim>\<open>trim_whitespace\<close>: skip leading blanks; an empty rest is returned as it is; otherwise
  \<^verbatim>\<open>end\<close> walks back from the last byte while \<^verbatim>\<open>end > str\<close> and the byte is blank, so
  the first byte is never cut.
\<close>

definition trim_whitespace :: "string \<Rightarrow> string" where
  "trim_whitespace str =
     (case dropWhile is_space str of
        [] \<Rightarrow> []
      | c # cs \<Rightarrow> c # rev (dropWhile is_space (rev cs)))"

definition string_duplicate :: "heap \<Rightarrow> string option \<Rightarrow> string option \<times> heap" where
  "string_duplicate h str =
     (case str of
        None \<Rightarrow> (None, h)
      | Some s \<Rightarrow> (case Dmod_Malloc h of (ok, h') \<Rightarrow> (if ok then Some s else None, h')))"

text \<open>
  \<^verbatim>\<open>find_section\<close> and \<^verbatim>\<open>find_pair\<close> return the first match. Their guards against a
  null context, section or key cannot fire: every caller has tested these pointers
  before the call, so the helpers take them non-null.
\<close>

fun find_section :: "dmini_context \<Rightarrow> string option \<Rightarrow> nat option" where
  "find_section [] section_name = None"
| "find_section (s # ss) section_name =
     (if sec_name s = None \<and> section_name = None then Some 0
      else if (case (sec_name s, section_name) of
                 (Some a, Some b) \<Rightarrow> a = b
               | _ \<Rightarrow> False) then Some 0
      else map_option Suc (find_section ss section_name))"

fun find_pair_loop :: "dmini_pair list \<Rightarrow> string \<Rightarrow> nat option" where
  "find_pair_loop [] k = None"
| "find_pair_loop (p # ps) k =
     (if pair_key p = k then Some 0 else map_option Suc (find_pair_loop ps k))"

definition find_pair :: "dmini_section \<Rightarrow> string \<Rightarrow> nat option" where
  "find_pair section k = find_pair_loop (sec_pairs section) k"

text \<open>
  \<^verbatim>\<open>create_section\<close>: the node is allocated first; the name is duplicated only when one
  is given, and the result of that duplication is stored unchecked.
\<close>

definition create_section :: "heap \<Rightarrow> string option \<Rightarrow> dmini_section option \<times> heap" where
  "create_section h name =
     (case Dmod_Malloc h of (ok, h1) \<Rightarrow>
        if \<not> ok then (None, h1)
        else (case (if name \<noteq> None then string_duplicate h1 name else (None, h1)) of
                (n, h2) \<Rightarrow> (Some \<lparr>sec_name = n, sec_pairs = []\<rparr>, h2)))"

text \<open>
  \<^verbatim>\<open>create_pair\<close>: the node, then both copies (the value is copied also when the copy
  of the key failed); if either copy is missing everything is released.
\<close>

definition create_pair :: "heap \<Rightarrow> string option \<Rightarrow> string option \<Rightarrow> dmini_pair option \<times> heap" where
  "create_pair h k v =
     (case Dmod_Malloc h of (ok, h1) \<Rightarrow>
        if \<not> ok then (None, h1)
        else (case string_duplicate h1 k of (k', h2) \<Rightarrow>
               (case string_duplicate h2 v of (v', h3) \<Rightarrow>
                 (case (k', v') of
                    (Some ks, Some vs) \<Rightarrow> (Some \<lparr>pair_key = ks, pair_value = Some vs\<rparr>, h3)
                  | _ \<Rightarrow> (None, h3)))))"

definition get_or_create_section ::
  "heap \<Rightarrow> dmini_context \<Rightarrow> string option \<Rightarrow> nat option \<times> dmini_context \<times> heap" where
  "get_or_create_section h ctx section_name =
     (case find_section ctx section_name of
        Some i \<Rightarrow> (Some i, ctx, h)
      | None \<Rightarrow>
          (case create_section h section_name of
             (None, h') \<Rightarrow> (None, ctx, h')
           | (Some s, h') \<Rightarrow> (Some (length ctx), ctx @ [s], h')))"

text \<open>
  \<^verbatim>\<open>set_pair_in_section\<close> works through a section pointer: here the context and the
  index of the section in it. On an existing key the old value is released and the
  field is assigned the new copy before that copy is tested.
\<close>

definition set_pair_in_section ::
  "heap \<Rightarrow> dmini_context \<Rightarrow> nat option \<Rightarrow> string option \<Rightarrow> string option
     \<Rightarrow> status \<times> dmini_context \<times> heap" where
  "set_pair_in_section h ctx section k v =
     (case (section, k) of
        (Some i, Some ks) \<Rightarrow>
          (case find_pair (ctx ! i) ks of
             Some j \<Rightarrow>
               (case string_duplicate h v of (v', h') \<Rightarrow>
                  (if v' = None then DMINI_ERR_MEMORY else DMINI_OK,
                   ctx[i := (ctx ! i)\<lparr>sec_pairs :=
                              (sec_pairs (ctx ! i))[j := (sec_pairs (ctx ! i) ! j)\<lparr>pair_value := v'\<rparr>]\<rparr>],
                   h'))
           | None \<Rightarrow>
               (case create_pair h k v of
                  (None, h') \<Rightarrow> (DMINI_ERR_MEMORY, ctx, h')
                | (Some p, h') \<Rightarrow>
                    (DMINI_OK,
                     ctx[i := (ctx ! i)\<lparr>sec_pairs := sec_pairs (ctx ! i) @ [p]\<rparr>],
                     h')))
      | _ \<Rightarrow> (DMINI_ERR_INVALID, ctx, h))"

section \<open>Public API\<close>

definition dmini_create :: "heap \<Rightarrow> dmini_context option \<times> heap" where
  "dmini_create h =
     (case Dmod_Malloc h of (ok, h1) \<Rightarrow>
        if \<not> ok then (None, h1)
        else (case create_section h1 None of
                (None, h2) \<Rightarrow> (None, h2)
              | (Some s, h2) \<Rightarrow> (Some [s], h2)))"

subsection \<open>Parser\<close>

definition is_eol :: "char \<Rightarrow> bool" where
  "is_eol c = (c = CHR 0x0A \<or> c = CHR 0x0D)"

text \<open>
  One turn of the loop of \<^verbatim>\<open>dmini_parse_string\<close> cuts the buffer at the first line
  terminator: \<open>line_of\<close> is the text before it, \<open>next_line_of\<close> what follows it, less one
  more terminator byte if there is one.
\<close>

definition line_of :: "string \<Rightarrow> string" where
  "line_of buf = takeWhile (\<lambda>c. \<not> is_eol c) buf"

definition next_line_of :: "string \<Rightarrow> string" where
  "next_line_of buf =
     (case dropWhile (\<lambda>c. \<not> is_eol c) buf of
        [] \<Rightarrow> []
      | t # r \<Rightarrow> (case r of [] \<Rightarrow> [] | c # r' \<Rightarrow> if is_eol c then r' else r))"

text \<open>
  The rest of the loop body, on the line just cut: trim; skip blank lines and comments;
  a line that starts with \<^verbatim>\<open>[\<close> is a header and never a pair; otherwise split at
  the first \<^verbatim>\<open>=\<close>. The result carries the status, the context and the current
  section.
\<close>

definition parse_line ::
  "heap \<Rightarrow> dmini_context \<Rightarrow> nat option \<Rightarrow> string
     \<Rightarrow> status \<times> dmini_context \<times> nat option \<times> heap" where
  "parse_line h ctx current_section raw =
     (case trim_whitespace raw of
        [] \<Rightarrow> (DMINI_OK, ctx, current_section, h)
      | c # rest \<Rightarrow>
          if c = CHR '';'' \<or> c = CHR ''#'' then (DMINI_OK, ctx, current_section, h)
          else if c = CHR ''['' then
            (case dropWhile (\<lambda>x. x \<noteq> CHR '']'') rest of
               [] \<Rightarrow> (DMINI_OK, ctx, current_section, h)
             | _ # _ \<Rightarrow>
                 (case get_or_create_section h ctx
                         (Some (trim_whitespace (takeWhile (\<lambda>x. x \<noteq> CHR '']'') rest))) of
                    (None, ctx', h') \<Rightarrow> (DMINI_ERR_MEMORY, ctx', None, h')
                  | (Some i, ctx', h') \<Rightarrow> (DMINI_OK, ctx', Some i, h')))
          else
            (case dropWhile (\<lambda>x. x \<noteq> CHR ''='') (c # rest) of
               [] \<Rightarrow> (DMINI_OK, ctx, current_section, h)
             | _ # after \<Rightarrow>
                 (let k = trim_whitespace (takeWhile (\<lambda>x. x \<noteq> CHR ''='') (c # rest));
                      v = trim_whitespace after
                  in if k \<noteq> [] then
                       (case set_pair_in_section h ctx current_section (Some k) (Some v) of
                          (r, ctx', h') \<Rightarrow> (r, ctx', current_section, h'))
                     else (DMINI_OK, ctx, current_section, h))))"

function parse_loop ::
  "heap \<Rightarrow> dmini_context \<Rightarrow> nat option \<Rightarrow> string \<Rightarrow> status \<times> dmini_context \<times> heap" where
  "parse_loop h ctx current_section buf =
     (if buf = [] then (DMINI_OK, ctx, h)
      else (case parse_line h ctx current_section (line_of buf) of
              (r, ctx', cur', h') \<Rightarrow>
                if r = DMINI_OK then parse_loop h' ctx' cur' (next_line_of buf)
                else (r, ctx', h')))"
  by pat_completeness auto
termination
proof (relation "measure (\<lambda>(h, ctx, cur, buf). length buf)")
  show "wf (measure (\<lambda>(h, ctx, cur, buf). length buf))"
    by simp
next
  fix h :: heap and ctx :: dmini_context and current_section :: "nat option"
    and buf :: string and x y xa ya xb yb
  assume ne: "buf \<noteq> []"
  have le: "length (dropWhile (\<lambda>c. \<not> is_eol c) buf) \<le> length buf"
    by (rule length_dropWhile_le)
  have "length (next_line_of buf) < length buf"
  proof (cases "dropWhile (\<lambda>c. \<not> is_eol c) buf")
    case Nil
    show ?thesis unfolding next_line_of_def Nil using ne by simp
  next
    case (Cons t r)
    show ?thesis using le unfolding next_line_of_def Cons
      by (auto split: list.splits)
  qed
  then show "((yb, xa, xb, next_line_of buf), h, ctx, current_section, buf)
        \<in> measure (\<lambda>(h, ctx, cur, buf). length buf)"
    by simp
qed

text \<open>
  \<^verbatim>\<open>dmini_parse_string\<close>: the input is duplicated (one allocation), and the current
  section starts as the head of the section list (null if the list is empty).
\<close>

definition dmini_parse_string ::
  "heap \<Rightarrow> dmini_context option \<Rightarrow> string option \<Rightarrow> status \<times> dmini_context option \<times> heap" where
  "dmini_parse_string h ctx data =
     (case (ctx, data) of
        (Some secs, Some d) \<Rightarrow>
          (case string_duplicate h (Some d) of
             (None, h') \<Rightarrow> (DMINI_ERR_MEMORY, ctx, h')
           | (Some buffer, h') \<Rightarrow>
               (case parse_loop h' secs (if secs = [] then None else Some 0) buffer of
                  (r, secs', h'') \<Rightarrow> (r, Some secs', h'')))
      | _ \<Rightarrow> (DMINI_ERR_INVALID, ctx, h))"

subsection \<open>Serializer\<close>

text \<open>
  The planning pass adds up \<^verbatim>\<open>buffer_size\<close>. \<^verbatim>\<open>strlen\<close> of a null value is
  undefined behaviour: the pass then has no result (\<^term>\<open>None\<close>). The sum counts
  bytes of strings that are all in memory at once, each with its own terminator, so it
  cannot exceed the range of \<^verbatim>\<open>size_t\<close>; it is a \<^typ>\<open>nat\<close>.
\<close>

fun size_pairs :: "dmini_pair list \<Rightarrow> nat \<Rightarrow> nat option" where
  "size_pairs [] buffer_size = Some buffer_size"
| "size_pairs (p # ps) buffer_size =
     (case pair_value p of
        None \<Rightarrow> None
      | Some v \<Rightarrow> size_pairs ps (buffer_size + (length (pair_key p) + length v + 2)))"

fun size_sections :: "dmini_section list \<Rightarrow> nat \<Rightarrow> nat option" where
  "size_sections [] buffer_size = Some buffer_size"
| "size_sections (s # ss) buffer_size =
     (case size_pairs (sec_pairs s)
             (case sec_name s of
                Some name \<Rightarrow> buffer_size + (length name + 3)
              | None \<Rightarrow> buffer_size) of
        None \<Rightarrow> None
      | Some n \<Rightarrow> size_sections ss (if sec_name s \<noteq> None \<and> ss \<noteq> [] then n + 1 else n))"

text \<open>
  The writing pass: \<open>out\<close> holds the bytes stored so far, from the start of the buffer
  up to \<^verbatim>\<open>pos\<close>.
\<close>

fun write_pairs :: "dmini_pair list \<Rightarrow> string \<Rightarrow> string option" where
  "write_pairs [] out = Some out"
| "write_pairs (p # ps) out =
     (case pair_value p of
        None \<Rightarrow> None
      | Some v \<Rightarrow> write_pairs ps (out @ pair_key p @ [CHR ''=''] @ v @ [CHR 0x0A]))"

fun write_sections :: "dmini_section list \<Rightarrow> string \<Rightarrow> string option" where
  "write_sections [] out = Some out"
| "write_sections (s # ss) out =
     (case write_pairs (sec_pairs s)
             (case sec_name s of
                Some name \<Rightarrow> out @ [CHR ''[''] @ name @ [CHR '']'', CHR 0x0A]
              | None \<Rightarrow> out) of
        None \<Rightarrow> None
      | Some out' \<Rightarrow>
          write_sections ss (if sec_name s \<noteq> None \<and> ss \<noteq> [] then out' @ [CHR 0x0A] else out'))"

text \<open>
  The result of \<^verbatim>\<open>dmini_generate_string\<close>: a null pointer, the string in the returned
  buffer, or undefined behaviour (a null value read by \<^verbatim>\<open>strlen\<close>, or bytes stored
  beyond the \<^verbatim>\<open>buffer_size + 1\<close> bytes allocated).
\<close>

datatype gen_result = GenNull | GenBuffer string | GenUndefined

definition dmini_generate_string :: "heap \<Rightarrow> dmini_context option \<Rightarrow> gen_result \<times> heap" where
  "dmini_generate_string h ctx =
     (case ctx of
        None \<Rightarrow> (GenNull, h)
      | Some secs \<Rightarrow>
          (case size_sections secs 0 of
             None \<Rightarrow> (GenUndefined, h)
           | Some buffer_size \<Rightarrow>
               (case Dmod_Malloc h of (ok, h') \<Rightarrow>
                  if \<not> ok then (GenNull, h')
                  else (case write_sections secs [] of
                          None \<Rightarrow> (GenUndefined, h')
                        | Some out \<Rightarrow>
                            if length out + 1 \<le> buffer_size + 1 then (GenBuffer out, h')
                            else (GenUndefined, h')))))"

subsection \<open>Accessors\<close>

definition dmini_get_string ::
  "dmini_context option \<Rightarrow> string option \<Rightarrow> string option \<Rightarrow> string option \<Rightarrow> string option" where
  "dmini_get_string ctx section k default_value =
     (case (ctx, k) of
        (Some secs, Some ks) \<Rightarrow>
          (case find_section secs section of
             None \<Rightarrow> default_value
           | Some i \<Rightarrow>
               (case find_pair (secs ! i) ks of
                  None \<Rightarrow> default_value
                | Some j \<Rightarrow> pair_value (sec_pairs (secs ! i) ! j)))
      | _ \<Rightarrow> default_value)"

definition is_digit :: "char \<Rightarrow> bool" where
  "is_digit c = ((48::nat) \<le> of_char c \<and> (of_char c :: nat) \<le> 57)"

text \<open>The digit loop of \<^verbatim>\<open>dmini_get_int\<close>; \<^verbatim>\<open>int\<close> arithmetic wraps at 32 bits.\<close>

fun convert_digits :: "string \<Rightarrow> c_int \<Rightarrow> c_int" where
  "convert_digits [] result = result"
| "convert_digits (c # p) result =
     (if is_digit c then convert_digits p (result * 10 + (of_char c - 48)) else result)"

definition dmini_get_int ::
  "dmini_context option \<Rightarrow> string option \<Rightarrow> string option \<Rightarrow> c_int \<Rightarrow> c_int" where
  "dmini_get_int ctx section k default_value =
     (case dmini_get_string ctx section k None of
        None \<Rightarrow> default_value
      | Some v \<Rightarrow>
          (case dropWhile (\<lambda>c. c = CHR '' '' \<or> c = CHR 0x09) v of
             [] \<Rightarrow> convert_digits [] 0 * 1
           | c # p \<Rightarrow>
               if c = CHR ''-'' then convert_digits p 0 * (- 1)
               else if c = CHR ''+'' then convert_digits p 0 * 1
               else convert_digits (c # p) 0 * 1))"

definition dmini_set_string ::
  "heap \<Rightarrow> dmini_context option \<Rightarrow> string option \<Rightarrow> string option \<Rightarrow> string option
     \<Rightarrow> status \<times> dmini_context option \<times> heap" where
  "dmini_set_string h ctx section k v =
     (case (ctx, k, v) of
        (Some secs, Some ks, Some vs) \<Rightarrow>
          (case get_or_create_section h secs section of
             (None, secs', h') \<Rightarrow> (DMINI_ERR_MEMORY, Some secs', h')
           | (Some i, secs', h') \<Rightarrow>
               (case set_pair_in_section h' secs' (Some i) k v of
                  (r, secs'', h'') \<Rightarrow> (r, Some secs'', h'')))
      | _ \<Rightarrow> (DMINI_ERR_INVALID, ctx, h))"

text \<open>
  The digit loop of \<^verbatim>\<open>dmini_set_int\<close>, on the mathematical value of the \<^verbatim>\<open>int\<close>:
  \<^verbatim>\<open>%\<close> and \<^verbatim>\<open>/\<close> truncate towards zero, and the sum with \<^verbatim>\<open>'0'\<close> is stored in a
  \<^verbatim>\<open>char\<close>. Dividing never leaves the range of \<^verbatim>\<open>int\<close>; only the negation before
  the loop can wrap.
\<close>

function int_digits :: "int \<Rightarrow> string \<Rightarrow> string" where
  "int_digits v p =
     (if v sdiv 10 > 0 then int_digits (v sdiv 10) (char_of (48 + v smod 10) # p)
      else char_of (48 + v smod 10) # p)"
  by pat_completeness auto
termination
proof (relation "measure (\<lambda>(v, p). nat v)")
  show "wf (measure (\<lambda>(v, p). nat v))"
    by simp
next
  fix v :: int and p :: string
  assume pos: "0 < v sdiv 10"
  have "0 < v"
  proof (rule ccontr)
    assume "\<not> 0 < v"
    then have "v sdiv 10 \<le> 0"
      by (simp add: signed_divide_int_def sgn_if mult_le_0_iff pos_imp_zdiv_nonneg_iff)
    with pos show False by simp
  qed
  then have "v sdiv 10 = v div 10"
    by (simp add: signed_divide_int_def)
  with \<open>0 < v\<close> pos have "nat (v sdiv 10) < nat v"
    by simp
  then show "((v sdiv 10, char_of (48 + v smod 10) # p), v, p) \<in> measure (\<lambda>(v, p). nat v)"
    by simp
qed

definition dmini_set_int ::
  "heap \<Rightarrow> dmini_context option \<Rightarrow> string option \<Rightarrow> string option \<Rightarrow> c_int
     \<Rightarrow> status \<times> dmini_context option \<times> heap" where
  "dmini_set_int h ctx section k v =
     (if sint v < 0
      then dmini_set_string h ctx section k (Some (CHR ''-'' # int_digits (sint (- v)) []))
      else dmini_set_string h ctx section k (Some (int_digits (sint v) [])))"

definition dmini_has_section :: "dmini_context option \<Rightarrow> string option \<Rightarrow> c_int" where
  "dmini_has_section ctx section =
     (case ctx of
        None \<Rightarrow> 0
      | Some secs \<Rightarrow> (if find_section secs section \<noteq> None then 1 else 0))"

definition dmini_has_key ::
  "dmini_context option \<Rightarrow> string option \<Rightarrow> string option \<Rightarrow> c_int" where
  "dmini_has_key ctx section k =
     (case (ctx, k) of
        (Some secs, Some ks) \<Rightarrow>
          (case find_section secs section of
             None \<Rightarrow> 0
           | Some i \<Rightarrow> (if find_pair (secs ! i) ks \<noteq> None then 1 else 0))
      | _ \<Rightarrow> 0)"

subsection \<open>Removal\<close>

text \<open>
  The unlinking loops: the first matching node is taken out; \<^term>\<open>None\<close> when the
  end of the list is reached. A section matches only if it has a name.
\<close>

fun remove_section_loop :: "dmini_section list \<Rightarrow> string \<Rightarrow> dmini_section list option" where
  "remove_section_loop [] section = None"
| "remove_section_loop (node # rest) section =
     (if (case sec_name node of Some n \<Rightarrow> n = section | None \<Rightarrow> False) then Some rest
      else map_option ((#) node) (remove_section_loop rest section))"

definition dmini_remove_section ::
  "dmini_context option \<Rightarrow> string option \<Rightarrow> status \<times> dmini_context option" where
  "dmini_remove_section ctx section =
     (case (ctx, section) of
        (Some secs, Some name) \<Rightarrow>
          (case remove_section_loop secs name of
             None \<Rightarrow> (DMINI_ERR_NOT_FOUND, ctx)
           | Some secs' \<Rightarrow> (DMINI_OK, Some secs'))
      | _ \<Rightarrow> (DMINI_ERR_INVALID, ctx))"

fun remove_pair_loop :: "dmini_pair list \<Rightarrow> string \<Rightarrow> dmini_pair list option" where
  "remove_pair_loop [] k = None"
| "remove_pair_loop (node # rest) k =
     (if pair_key node = k then Some rest
      else map_option ((#) node) (remove_pair_loop rest k))"

definition dmini_remove_key ::
  "dmini_context option \<Rightarrow> string option \<Rightarrow> string option \<Rightarrow> status \<times> dmini_context option" where
  "dmini_remove_key ctx section k =
     (case (ctx, k) of
        (Some secs, Some ks) \<Rightarrow>
          (case find_section secs section of
             None \<Rightarrow> (DMINI_ERR_NOT_FOUND, ctx)
           | Some i \<Rightarrow>
               (case remove_pair_loop (sec_pairs (secs ! i)) ks of
                  None \<Rightarrow> (DMINI_ERR_NOT_FOUND, ctx)
                | Some ps \<Rightarrow> (DMINI_OK, Some (secs[i := (secs ! i)\<lparr>sec_pairs := ps\<rparr>]))))
      | _ \<Rightarrow> (DMINI_ERR_INVALID, ctx))"

section \<open>Notions used in the statements\<close>

text \<open>
  A lookup of \<open>k\<close> in \<open>section\<close> misses when the context is null, the key is null, no
  section has that name, or the first section of that name holds no pair with that key.
\<close>

definition lookup_misses :: "dmini_context option \<Rightarrow> string option \<Rightarrow> string option \<Rightarrow> bool" where
  "lookup_misses ctx section k =
     (case (ctx, k) of
        (Some secs, Some ks) \<Rightarrow>
          (case find (\<lambda>s. sec_name s = section) secs of
             None \<Rightarrow> True
           | Some s \<Rightarrow> ks \<notin> pair_key ` set (sec_pairs s))
      | _ \<Rightarrow> True)"

definition section_misses :: "dmini_context option \<Rightarrow> string option \<Rightarrow> bool" where
  "section_misses ctx section =
     (case ctx of None \<Rightarrow> True | Some secs \<Rightarrow> section \<notin> sec_name ` set secs)"

text \<open>
  A stored value has no parseable digits when, after leading blanks and tabs and one
  optional sign, it ends or goes on with a byte that is not a decimal digit.
\<close>

definition no_parseable_digits :: "string \<Rightarrow> bool" where
  "no_parseable_digits v =
     (case dropWhile (\<lambda>c. c = CHR '' '' \<or> c = CHR 0x09) v of
        [] \<Rightarrow> True
      | c # p \<Rightarrow>
          if c = CHR ''-'' \<or> c = CHR ''+'' then (case p of [] \<Rightarrow> True | c' # _ \<Rightarrow> \<not> is_digit c')
          else \<not> is_digit c)"

text \<open>Every pair of the context holds a value string (no null value pointer).\<close>

definition values_present :: "dmini_context \<Rightarrow> bool" where
  "values_present secs = list_all (\<lambda>s. list_all (\<lambda>p. pair_value p \<noteq> None) (sec_pairs s)) secs"

text \<open>
  The text of a context as the specification words it: per pair a line \<^verbatim>\<open>key=value\<close>;
  per section an optional header line \<^verbatim>\<open>[name]\<close> (none for the nameless section)
  followed by the lines of its pairs in stored order; sections in stored order, with
  one empty line after a named section that is followed by another section.
\<close>

definition pair_line :: "dmini_pair \<Rightarrow> string" where
  "pair_line p = pair_key p @ ''='' @ the (pair_value p) @ [CHR 0x0A]"

definition section_lines :: "dmini_section \<Rightarrow> string" where
  "section_lines s =
     (case sec_name s of Some name \<Rightarrow> ''['' @ name @ '']'' @ [CHR 0x0A] | None \<Rightarrow> [])
     @ concat (map pair_line (sec_pairs s))"

fun render :: "dmini_section list \<Rightarrow> string" where
  "render [] = []"
| "render [s] = section_lines s"
| "render (s # t # ss) =
     section_lines s @ (if sec_name s \<noteq> None then [CHR 0x0A] else []) @ render (t # ss)"

text \<open>
  The calls a client can make on a context after \<open>dmini_create\<close>, and a run of such
  calls. The client may go on after a call that reported an error.
\<close>

datatype operation =
    ParseString "string option"
  | SetString "string option" "string option" "string option"
  | SetInt "string option" "string option" c_int
  | RemoveSection "string option"
  | RemoveKey "string option" "string option"

fun apply_operation ::
  "heap \<Rightarrow> dmini_context option \<Rightarrow> operation \<Rightarrow> status \<times> dmini_context option \<times> heap" where
  "apply_operation h ctx (ParseString data) = dmini_parse_string h ctx data"
| "apply_operation h ctx (SetString section k v) = dmini_set_string h ctx section k v"
| "apply_operation h ctx (SetInt section k n) = dmini_set_int h ctx section k n"
| "apply_operation h ctx (RemoveSection section) =
     (case dmini_remove_section ctx section of (r, ctx') \<Rightarrow> (r, ctx', h))"
| "apply_operation h ctx (RemoveKey section k) =
     (case dmini_remove_key ctx section k of (r, ctx') \<Rightarrow> (r, ctx', h))"

fun run_operations ::
  "heap \<Rightarrow> dmini_context option \<Rightarrow> operation list \<Rightarrow> dmini_context option \<times> heap" where
  "run_operations h ctx [] = (ctx, h)"
| "run_operations h ctx (x # xs) =
     (case apply_operation h ctx x of (r, ctx', h') \<Rightarrow> run_operations h' ctx' xs)"

text \<open>The context is not null and its first section is nameless.\<close>

definition global_at_head :: "dmini_context option \<Rightarrow> bool" where
  "global_at_head ctx = (case ctx of Some (g # _) \<Rightarrow> sec_name g = None | _ \<Rightarrow> False)"

text \<open>
  The malformed lines the parser tolerates: after trimming, a line that opens with
  \<^verbatim>\<open>[\<close> and has no \<^verbatim>\<open>]\<close>; a line without \<^verbatim>\<open>=\<close>; a line whose text before
  the first \<^verbatim>\<open>=\<close> trims to nothing.
\<close>

definition malformed_line :: "string \<Rightarrow> bool" where
  "malformed_line l =
     (case trim_whitespace l of
        [] \<Rightarrow> False
      | c # rest \<Rightarrow>
          if c = CHR ''['' then CHR '']'' \<notin> set rest
          else CHR ''='' \<notin> set (c # rest) \<or>
               trim_whitespace (takeWhile (\<lambda>x. x \<noteq> CHR ''='') (c # rest)) = [])"

text \<open>
  Strings that pass through the text format unchanged. A string is \<open>trimmed\<close> when it
  has no blank at either end, and \<open>one_line\<close> when it holds no line terminator. A key
  must also be non-empty, free of \<^verbatim>\<open>=\<close>, and must not open with the byte of a
  comment or of a header; a section name must be free of \<^verbatim>\<open>]\<close>.
\<close>

definition trimmed :: "string \<Rightarrow> bool" where
  "trimmed s = (s = [] \<or> (\<not> is_space (hd s) \<and> \<not> is_space (last s)))"

definition one_line :: "string \<Rightarrow> bool" where
  "one_line s = list_all (\<lambda>c. \<not> is_eol c) s"

definition storable_key :: "string \<Rightarrow> bool" where
  "storable_key k =
     (k \<noteq> [] \<and> trimmed k \<and> one_line k \<and> CHR ''='' \<notin> set k \<and>
      hd k \<noteq> CHR '';'' \<and> hd k \<noteq> CHR ''#'' \<and> hd k \<noteq> CHR ''['')"

definition storable_value :: "string \<Rightarrow> bool" where
  "storable_value v = (trimmed v \<and> one_line v)"

definition storable_name :: "string \<Rightarrow> bool" where
  "storable_name n = (trimmed n \<and> one_line n \<and> CHR '']'' \<notin> set n)"

text \<open>
  The setter calls whose arguments pass through the text format: \<open>dmini_set_string\<close>
  and \<open>dmini_set_int\<close> with a storable key, a null or storable section name and, for
  the string setter, a storable value.
\<close>

fun storable_operation :: "operation \<Rightarrow> bool" where
  "storable_operation (SetString section (Some k) (Some v)) =
     ((case section of None \<Rightarrow> True | Some n \<Rightarrow> storable_name n) \<and>
      storable_key k \<and> storable_value v)"
| "storable_operation (SetInt section (Some k) n) =
     ((case section of None \<Rightarrow> True | Some n \<Rightarrow> storable_name n) \<and> storable_key k)"
| "storable_operation _ = False"

text \<open>
  The models such calls build: the nameless section first, section names distinct and
  storable, and in every section distinct storable keys with storable values.
\<close>

definition wf_names :: "string option list \<Rightarrow> bool" where
  "wf_names ns =
     (ns \<noteq> [] \<and> hd ns = None \<and> distinct ns \<and>
      list_all (\<lambda>n. case n of None \<Rightarrow> True | Some s \<Rightarrow> storable_name s) ns)"

definition wf_pair :: "dmini_pair \<Rightarrow> bool" where
  "wf_pair p =
     (storable_key (pair_key p) \<and>
      (case pair_value p of None \<Rightarrow> False | Some v \<Rightarrow> storable_value v))"

definition wf_pairs :: "dmini_pair list \<Rightarrow> bool" where
  "wf_pairs ps = (distinct (map pair_key ps) \<and> list_all wf_pair ps)"

definition wf_model :: "dmini_context \<Rightarrow> bool" where
  "wf_model m = (wf_names (map sec_name m) \<and> list_all (\<lambda>s. wf_pairs (sec_pairs s)) m)"

text \<open>The context \<open>dmini_create\<close> returns: the global section alone, without pairs.\<close>

definition fresh_context :: dmini_context where
  "fresh_context = [\<lparr>sec_name = None, sec_pairs = []\<rparr>]"

section \<open>Verification\<close>

text \<open>
  The claims of the specification follow, each stated over the definitions above and
  preceded by the lemmas it needs. Allocation is never assumed to succeed unless a
  statement says so through \<open>alloc_ok\<close> or the outcome of \<open>Dmod_Malloc\<close>.
\<close>

subsection \<open>Basic facts about the helpers\<close>

lemma Dmod_Malloc_ok: "alloc_ok h \<Longrightarrow> Dmod_Malloc h = (True, tl h)"
  by (cases h) (simp_all add: Dmod_Malloc_def alloc_ok_def)

lemma alloc_ok_tl: "alloc_ok h \<Longrightarrow> alloc_ok (tl h)"
  by (cases h) (simp_all add: alloc_ok_def)

lemma alloc_ok_Nil: "alloc_ok []"
  by (simp add: alloc_ok_def)

lemma string_duplicate_ok: "alloc_ok h \<Longrightarrow> string_duplicate h (Some s) = (Some s, tl h)"
  by (simp add: string_duplicate_def Dmod_Malloc_ok)

lemma find_section_Cons:
  "find_section (s # ss) n =
     (if sec_name s = n then Some 0 else map_option Suc (find_section ss n))"
  by (cases "sec_name s"; cases n) auto

declare find_section.simps(2) [simp del]
declare find_section_Cons [simp]

lemma find_section_None_iff: "find_section secs n = None \<longleftrightarrow> n \<notin> sec_name ` set secs"
  by (induction secs) auto

lemma find_section_Some:
  "find_section secs n = Some i \<Longrightarrow> i < length secs \<and> sec_name (secs ! i) = n"
proof (induction secs arbitrary: i)
  case Nil
  then show ?case by simp
next
  case (Cons s ss)
  then show ?case
    by (auto split: if_splits)
qed

lemma find_section_find:
  "find_section secs n = Some i \<Longrightarrow> find (\<lambda>s. sec_name s = n) secs = Some (secs ! i)"
proof (induction secs arbitrary: i)
  case Nil
  then show ?case by simp
next
  case (Cons s ss)
  then show ?case
    by (auto split: if_splits)
qed

lemma find_section_find_None:
  "find_section secs n = None \<longleftrightarrow> find (\<lambda>s. sec_name s = n) secs = None"
  by (simp add: find_section_None_iff find_None_iff image_iff) blast

lemma find_pair_loop_None_iff: "find_pair_loop ps k = None \<longleftrightarrow> k \<notin> pair_key ` set ps"
  by (induction ps) auto

lemma find_pair_loop_Some:
  "find_pair_loop ps k = Some j \<Longrightarrow> j < length ps \<and> pair_key (ps ! j) = k"
proof (induction ps arbitrary: j)
  case Nil
  then show ?case by simp
next
  case (Cons p ps)
  then show ?case by (auto split: if_splits)
qed

lemma find_pair_loop_find:
  "find_pair_loop ps k = Some j \<Longrightarrow> find (\<lambda>p. pair_key p = k) ps = Some (ps ! j)"
proof (induction ps arbitrary: j)
  case Nil
  then show ?case by simp
next
  case (Cons p ps)
  then show ?case by (auto split: if_splits)
qed

lemma find_pair_loop_find_None:
  "find_pair_loop ps k = None \<longleftrightarrow> find (\<lambda>p. pair_key p = k) ps = None"
  by (simp add: find_pair_loop_None_iff find_None_iff image_iff) blast

subsection \<open>Read accessors\<close>

lemma get_string_miss:
  "lookup_misses ctx section k \<Longrightarrow> dmini_get_string ctx section k d = d"
proof (cases ctx)
  case None
  then show ?thesis by (simp add: dmini_get_string_def)
next
  case (Some secs)
  assume miss: "lookup_misses ctx section k"
  show ?thesis
  proof (cases k)
    case None
    then show ?thesis by (simp add: dmini_get_string_def split: option.splits)
  next
    case (Some ks)
    show ?thesis
    proof (cases "find_section secs section")
      case None
      then show ?thesis
        using \<open>ctx = Some secs\<close> \<open>k = Some ks\<close> by (simp add: dmini_get_string_def)
    next
      case (Some i)
      from find_section_find [OF this] miss \<open>ctx = Some secs\<close> \<open>k = Some ks\<close>
      have "ks \<notin> pair_key ` set (sec_pairs (secs ! i))"
        by (simp add: lookup_misses_def)
      then have "find_pair (secs ! i) ks = None"
        by (simp add: find_pair_def find_pair_loop_None_iff)
      then show ?thesis
        using Some \<open>ctx = Some secs\<close> \<open>k = Some ks\<close> by (simp add: dmini_get_string_def)
    qed
  qed
qed

lemma has_key_miss:
  "lookup_misses ctx section k \<Longrightarrow> dmini_has_key ctx section k = 0"
proof (cases ctx)
  case None
  then show ?thesis by (simp add: dmini_has_key_def)
next
  case (Some secs)
  assume miss: "lookup_misses ctx section k"
  show ?thesis
  proof (cases k)
    case None
    then show ?thesis by (simp add: dmini_has_key_def split: option.splits)
  next
    case (Some ks)
    show ?thesis
    proof (cases "find_section secs section")
      case None
      then show ?thesis
        using \<open>ctx = Some secs\<close> \<open>k = Some ks\<close> by (simp add: dmini_has_key_def)
    next
      case (Some i)
      from find_section_find [OF this] miss \<open>ctx = Some secs\<close> \<open>k = Some ks\<close>
      have "ks \<notin> pair_key ` set (sec_pairs (secs ! i))"
        by (simp add: lookup_misses_def)
      then have "find_pair (secs ! i) ks = None"
        by (simp add: find_pair_def find_pair_loop_None_iff)
      then show ?thesis
        using Some \<open>ctx = Some secs\<close> \<open>k = Some ks\<close> by (simp add: dmini_has_key_def)
    qed
  qed
qed

lemma has_section_miss:
  "section_misses ctx section \<Longrightarrow> dmini_has_section ctx section = 0"
  by (cases ctx) (simp_all add: section_misses_def dmini_has_section_def find_section_None_iff)

text \<open>
  Claim C8. The read accessors never fail. Whenever the lookup misses (null context, null
  key, no section of that name, or no such key in it), \<open>dmini_get_string\<close> returns the
  caller's default, \<open>dmini_get_int\<close> returns the caller's default and \<open>dmini_has_key\<close>
  returns 0; \<open>dmini_has_section\<close> returns 0 on a null context or a missing section. The
  accessors return a value only: they have no status result, and the context is not
  among their results.
\<close>

theorem read_accessors_never_fail:
  "(lookup_misses ctx section k \<longrightarrow>
      dmini_get_string ctx section k d = d \<and>
      dmini_get_int ctx section k n = n \<and>
      dmini_has_key ctx section k = 0) \<and>
   (section_misses ctx section \<longrightarrow> dmini_has_section ctx section = 0)"
proof -
  have "dmini_get_int ctx section k n = n" if "lookup_misses ctx section k"
    using get_string_miss [OF that, of None] by (simp add: dmini_get_int_def)
  then show ?thesis
    by (simp add: get_string_miss has_key_miss has_section_miss)
qed

theorem read_accessors_never_fail_witness:
  "lookup_misses (Some [\<lparr>sec_name = None, sec_pairs = []\<rparr>]) (Some ''missing_section'') (Some ''missing_key'') \<and>
   section_misses (Some [\<lparr>sec_name = None, sec_pairs = []\<rparr>]) (Some ''missing_section'') \<and>
   dmini_get_string (Some [\<lparr>sec_name = None, sec_pairs = []\<rparr>]) (Some ''missing_section'')
     (Some ''missing_key'') (Some ''fallback'') = Some ''fallback'' \<and>
   dmini_get_int (Some [\<lparr>sec_name = None, sec_pairs = []\<rparr>]) (Some ''missing_section'')
     (Some ''missing_key'') 7 = 7 \<and>
   dmini_has_key (Some [\<lparr>sec_name = None, sec_pairs = []\<rparr>]) (Some ''missing_section'')
     (Some ''missing_key'') = 0 \<and>
   dmini_has_section (Some [\<lparr>sec_name = None, sec_pairs = []\<rparr>]) (Some ''missing_section'') = 0"
  using read_accessors_never_fail [of "Some [\<lparr>sec_name = None, sec_pairs = []\<rparr>]"
      "Some ''missing_section''" "Some ''missing_key''" "Some ''fallback''" 7]
  by (simp add: lookup_misses_def section_misses_def)

lemma get_string_hit:
  assumes "find (\<lambda>s. sec_name s = section) secs = Some s"
    and "find (\<lambda>p. pair_key p = ks) (sec_pairs s) = Some p"
  shows "dmini_get_string (Some secs) section (Some ks) d = pair_value p"
proof -
  obtain i where i: "find_section secs section = Some i"
    using assms(1) find_section_find_None [of secs "section"] by (cases "find_section secs section") auto
  from find_section_find [OF i] assms(1) have s: "secs ! i = s" by simp
  obtain j where j: "find_pair_loop (sec_pairs s) ks = Some j"
    using assms(2) find_pair_loop_find_None [of "sec_pairs s" ks]
    by (cases "find_pair_loop (sec_pairs s) ks") auto
  from find_pair_loop_find [OF j] assms(2) have p: "sec_pairs s ! j = p" by simp
  show ?thesis
    by (simp add: dmini_get_string_def i s find_pair_def j p)
qed

lemma parse_no_digits:
  assumes "no_parseable_digits v"
  shows "(case dropWhile (\<lambda>c. c = CHR '' '' \<or> c = CHR 0x09) v of
            [] \<Rightarrow> convert_digits [] 0 * 1
          | c # p \<Rightarrow>
              if c = CHR ''-'' then convert_digits p 0 * (- 1)
              else if c = CHR ''+'' then convert_digits p 0 * 1
              else convert_digits (c # p) 0 * 1) = (0 :: c_int)"
proof (cases "dropWhile (\<lambda>c. c = CHR '' '' \<or> c = CHR 0x09) v")
  case Nil
  show ?thesis unfolding Nil by simp
next
  case (Cons c p)
  from assms have "if c = CHR ''-'' \<or> c = CHR ''+''
      then (case p of [] \<Rightarrow> True | c' # _ \<Rightarrow> \<not> is_digit c') else \<not> is_digit c"
    unfolding no_parseable_digits_def Cons by simp
  then show ?thesis unfolding Cons
    by (cases p) (auto split: if_splits)
qed

text \<open>
  Claim C2. When the key exists in the looked-up section and its stored value is a string
  without parseable digits, \<open>dmini_get_int\<close> returns 0 whatever the default is; and
  whenever the key exists with a stored string the result does not depend on the default
  at all, so the default is returned only on a miss.
\<close>

theorem get_int_no_digits_is_zero:
  assumes "find (\<lambda>s. sec_name s = section) secs = Some s"
    and "find (\<lambda>p. pair_key p = ks) (sec_pairs s) = Some p"
    and "pair_value p = Some v"
  shows "(no_parseable_digits v \<longrightarrow> dmini_get_int (Some secs) section (Some ks) d = 0) \<and>
         dmini_get_int (Some secs) section (Some ks) d = dmini_get_int (Some secs) section (Some ks) d'"
proof -
  have g: "dmini_get_string (Some secs) section (Some ks) None = Some v"
    using get_string_hit [OF assms(1,2)] assms(3) by simp
  have "dmini_get_int (Some secs) section (Some ks) d = 0" if "no_parseable_digits v"
    using parse_no_digits [OF that] by (simp add: dmini_get_int_def g)
  moreover have "dmini_get_int (Some secs) section (Some ks) d =
      dmini_get_int (Some secs) section (Some ks) d'"
    by (simp add: dmini_get_int_def g)
  ultimately show ?thesis by simp
qed

theorem get_int_no_digits_is_zero_witness:
  "find (\<lambda>s. sec_name s = None) [\<lparr>sec_name = None, sec_pairs = [\<lparr>pair_key = ''port'', pair_value = Some '' -abc''\<rparr>]\<rparr>]
     = Some \<lparr>sec_name = None, sec_pairs = [\<lparr>pair_key = ''port'', pair_value = Some '' -abc''\<rparr>]\<rparr> \<and>
   find (\<lambda>p. pair_key p = ''port'') [\<lparr>pair_key = ''port'', pair_value = Some '' -abc''\<rparr>]
     = Some \<lparr>pair_key = ''port'', pair_value = Some '' -abc''\<rparr> \<and>
   no_parseable_digits '' -abc'' \<and>
   dmini_get_int (Some [\<lparr>sec_name = None, sec_pairs = [\<lparr>pair_key = ''port'', pair_value = Some '' -abc''\<rparr>]\<rparr>])
     None (Some ''port'') 7 = 0"
  using get_int_no_digits_is_zero [of None
      "[\<lparr>sec_name = None, sec_pairs = [\<lparr>pair_key = ''port'', pair_value = Some '' -abc''\<rparr>]\<rparr>]"
      "\<lparr>sec_name = None, sec_pairs = [\<lparr>pair_key = ''port'', pair_value = Some '' -abc''\<rparr>]\<rparr>"
      "''port''" "\<lparr>pair_key = ''port'', pair_value = Some '' -abc''\<rparr>" "'' -abc''" 7 7]
  by (simp add: no_parseable_digits_def is_digit_def)

subsection \<open>Setting a pair when memory runs out\<close>

lemma set_new_pair_failure_keeps_section:
  assumes "find_pair (ctx ! i) ks = None"
    and "set_pair_in_section h ctx (Some i) (Some ks) v = (DMINI_ERR_MEMORY, ctx', h')"
  shows "ctx' = ctx"
  using assms
  by (auto simp: set_pair_in_section_def split: prod.splits option.splits)

text \<open>
  Claim C3 (not met by the code). A section holds the pair \<^verbatim>\<open>k=old\<close>; the key is set
  again to \<^verbatim>\<open>new\<close> while the allocator refuses the copy of the value. The call
  reports \<open>DMINI_ERR_MEMORY\<close>, but the pair that was there has lost its value: its value
  pointer is now null.
\<close>

theorem set_pair_overwrite_failure_loses_value:
  "set_pair_in_section [False]
     [\<lparr>sec_name = None, sec_pairs = [\<lparr>pair_key = ''k'', pair_value = Some ''old''\<rparr>]\<rparr>]
     (Some 0) (Some ''k'') (Some ''new'')
   = (DMINI_ERR_MEMORY,
      [\<lparr>sec_name = None, sec_pairs = [\<lparr>pair_key = ''k'', pair_value = None\<rparr>]\<rparr>],
      [])"
  by (simp add: set_pair_in_section_def find_pair_def string_duplicate_def Dmod_Malloc_def)

subsection \<open>Serializer\<close>

lemma size_pairs_write_pairs:
  "size_pairs ps (length out) = map_option length (write_pairs ps out)"
proof (induction ps arbitrary: out)
  case Nil
  show ?case by simp
next
  case (Cons p ps)
  show ?case
  proof (cases "pair_value p")
    case None
    then show ?thesis by simp
  next
    case (Some v)
    have "length out + (length (pair_key p) + length v + 2)
        = length (out @ pair_key p @ [CHR ''=''] @ v @ [CHR 0x0A])"
      by simp
    then show ?thesis
      using Cons.IH [of "out @ pair_key p @ [CHR ''=''] @ v @ [CHR 0x0A]"] Some
      by (simp del: length_append append_assoc)
  qed
qed

lemma size_sections_write_sections:
  "size_sections ss (length out) = map_option length (write_sections ss out)"
proof (induction ss arbitrary: out)
  case Nil
  show ?case by simp
next
  case (Cons s ss)
  define out1 where "out1 =
    (case sec_name s of Some name \<Rightarrow> out @ [CHR ''[''] @ name @ [CHR '']'', CHR 0x0A] | None \<Rightarrow> out)"
  have n1: "(case sec_name s of Some name \<Rightarrow> length out + (length name + 3) | None \<Rightarrow> length out)
      = length out1"
    by (simp add: out1_def split: option.splits)
  show ?case
  proof (cases "write_pairs (sec_pairs s) out1")
    case None
    then have "size_pairs (sec_pairs s) (length out1) = None"
      by (simp add: size_pairs_write_pairs)
    with None show ?thesis
      by (simp add: n1 out1_def [symmetric])
  next
    case (Some out2)
    then have sz: "size_pairs (sec_pairs s) (length out1) = Some (length out2)"
      by (simp add: size_pairs_write_pairs)
    have "(if sec_name s \<noteq> None \<and> ss \<noteq> [] then length out2 + 1 else length out2)
        = length (if sec_name s \<noteq> None \<and> ss \<noteq> [] then out2 @ [CHR 0x0A] else out2)"
      by simp
    then show ?thesis
      using Cons.IH [of "if sec_name s \<noteq> None \<and> ss \<noteq> [] then out2 @ [CHR 0x0A] else out2"]
      by (simp add: n1 out1_def [symmetric] Some sz del: length_append)
  qed
qed

lemma write_pairs_present:
  "list_all (\<lambda>p. pair_value p \<noteq> None) ps \<Longrightarrow>
     write_pairs ps out = Some (out @ concat (map pair_line ps))"
proof (induction ps arbitrary: out)
  case Nil
  show ?case by simp
next
  case (Cons p ps)
  then obtain v where "pair_value p = Some v" by auto
  with Cons show ?case by (simp add: pair_line_def)
qed

lemma write_sections_render:
  "values_present ss \<Longrightarrow> write_sections ss out = Some (out @ render ss)"
proof (induction ss arbitrary: out rule: render.induct)
  case 1
  show ?case by simp
next
  case (2 s)
  then have "list_all (\<lambda>p. pair_value p \<noteq> None) (sec_pairs s)"
    by (simp add: values_present_def)
  then show ?case
    by (cases "sec_name s") (simp_all add: write_pairs_present section_lines_def)
next
  case (3 s t ss)
  then have ps: "list_all (\<lambda>p. pair_value p \<noteq> None) (sec_pairs s)" and vp: "values_present (t # ss)"
    by (simp_all add: values_present_def)
  show ?case
    using "3.IH" [OF vp]
    by (cases "sec_name s") (simp_all add: write_pairs_present [OF ps] section_lines_def)
qed

lemma generate_string_granted:
  assumes "fst (Dmod_Malloc h)" and "size_sections secs 0 = Some n"
    and "write_sections secs [] = Some out" and "length out \<le> n"
  shows "dmini_generate_string h (Some secs) = (GenBuffer out, snd (Dmod_Malloc h))"
  using assms by (cases "Dmod_Malloc h") (simp add: dmini_generate_string_def)

text \<open>
  Claim C7. The size added up by the planning pass is the number of bytes the writing
  pass stores: both passes fail together on a null value, and otherwise the planned size
  is the length of the written text. So when every pair has a value and the buffer is
  granted, \<open>dmini_generate_string\<close> returns that text, whose length is the planned size:
  with its terminator it fills the \<open>buffer_size + 1\<close> bytes exactly.
\<close>

theorem planned_size_is_written_size:
  "size_sections secs 0 = map_option length (write_sections secs []) \<and>
   (values_present secs \<and> fst (Dmod_Malloc h) \<longrightarrow>
      (\<exists>out. write_sections secs [] = Some out \<and>
             size_sections secs 0 = Some (length out) \<and>
             dmini_generate_string h (Some secs) = (GenBuffer out, snd (Dmod_Malloc h))))"
proof -
  have eq: "size_sections secs 0 = map_option length (write_sections secs [])"
    using size_sections_write_sections [of secs "[]"] by simp
  moreover have "\<exists>out. write_sections secs [] = Some out \<and>
             size_sections secs 0 = Some (length out) \<and>
             dmini_generate_string h (Some secs) = (GenBuffer out, snd (Dmod_Malloc h))"
    if vp: "values_present secs" and ok: "fst (Dmod_Malloc h)"
  proof -
    from write_sections_render [OF vp, of "[]"] obtain out where w: "write_sections secs [] = Some out"
      by simp
    with eq have sz: "size_sections secs 0 = Some (length out)" by simp
    have "dmini_generate_string h (Some secs) = (GenBuffer out, snd (Dmod_Malloc h))"
      by (rule generate_string_granted [OF ok sz w]) simp
    with w sz show ?thesis by simp
  qed
  ultimately show ?thesis by blast
qed

theorem planned_size_is_written_size_witness:
  "values_present [\<lparr>sec_name = None, sec_pairs = [\<lparr>pair_key = ''g'', pair_value = Some ''1''\<rparr>]\<rparr>,
      \<lparr>sec_name = Some ''a'', sec_pairs = [\<lparr>pair_key = ''k'', pair_value = Some ''v''\<rparr>]\<rparr>] \<and>
   fst (Dmod_Malloc []) \<and>
   size_sections [\<lparr>sec_name = None, sec_pairs = [\<lparr>pair_key = ''g'', pair_value = Some ''1''\<rparr>]\<rparr>,
      \<lparr>sec_name = Some ''a'', sec_pairs = [\<lparr>pair_key = ''k'', pair_value = Some ''v''\<rparr>]\<rparr>] 0 = Some 12 \<and>
   (\<exists>out. length out = 12 \<and>
      dmini_generate_string [] (Some [\<lparr>sec_name = None, sec_pairs = [\<lparr>pair_key = ''g'', pair_value = Some ''1''\<rparr>]\<rparr>,
        \<lparr>sec_name = Some ''a'', sec_pairs = [\<lparr>pair_key = ''k'', pair_value = Some ''v''\<rparr>]\<rparr>]) = (GenBuffer out, []))"
  using planned_size_is_written_size [of
      "[\<lparr>sec_name = None, sec_pairs = [\<lparr>pair_key = ''g'', pair_value = Some ''1''\<rparr>]\<rparr>,
        \<lparr>sec_name = Some ''a'', sec_pairs = [\<lparr>pair_key = ''k'', pair_value = Some ''v''\<rparr>]\<rparr>]" "[]"]
  by (simp add: values_present_def Dmod_Malloc_def)

text \<open>
  Claim C5. For a context whose pairs all have a value, the writing pass stores exactly
  the text of the specification: sections in stored order, \<^verbatim>\<open>[name]\<close> and a newline
  for a named section, then one \<^verbatim>\<open>key=value\<close> line per pair in stored order, nothing
  for the header of the nameless section, one empty line after a named section that is
  followed by another, nothing after the nameless section's pairs or after the last
  section. With the nameless section at the head its pair lines open the text. When the
  buffer is granted \<open>dmini_generate_string\<close> returns this text.
\<close>

theorem generate_string_layout:
  "values_present secs \<longrightarrow>
     write_sections secs [] = Some (render secs) \<and>
     (\<forall>g others. secs = g # others \<and> sec_name g = None \<longrightarrow>
        write_sections secs [] = Some (concat (map pair_line (sec_pairs g)) @ render others)) \<and>
     (fst (Dmod_Malloc h) \<longrightarrow>
        dmini_generate_string h (Some secs) = (GenBuffer (render secs), snd (Dmod_Malloc h)))"
proof
  assume vp: "values_present secs"
  have w: "write_sections secs [] = Some (render secs)"
    using write_sections_render [OF vp, of "[]"] by simp
  have head: "write_sections secs [] = Some (concat (map pair_line (sec_pairs g)) @ render others)"
    if "secs = g # others \<and> sec_name g = None" for g others
    using that w by (cases others) (simp_all add: section_lines_def)
  have "dmini_generate_string h (Some secs) = (GenBuffer (render secs), snd (Dmod_Malloc h))"
    if ok: "fst (Dmod_Malloc h)"
  proof -
    have "size_sections secs 0 = Some (length (render secs))"
      using size_sections_write_sections [of secs "[]"] w by simp
    then show ?thesis
      by (rule generate_string_granted [OF ok _ w]) simp
  qed
  with w head show "write_sections secs [] = Some (render secs) \<and>
     (\<forall>g others. secs = g # others \<and> sec_name g = None \<longrightarrow>
        write_sections secs [] = Some (concat (map pair_line (sec_pairs g)) @ render others)) \<and>
     (fst (Dmod_Malloc h) \<longrightarrow>
        dmini_generate_string h (Some secs) = (GenBuffer (render secs), snd (Dmod_Malloc h)))"
    by blast
qed

theorem generate_string_layout_witness:
  "values_present [\<lparr>sec_name = None, sec_pairs = [\<lparr>pair_key = ''g'', pair_value = Some ''1''\<rparr>]\<rparr>,
      \<lparr>sec_name = Some ''a'', sec_pairs = [\<lparr>pair_key = ''k'', pair_value = Some ''v''\<rparr>]\<rparr>,
      \<lparr>sec_name = Some ''b'', sec_pairs = []\<rparr>] \<and>
   fst (Dmod_Malloc []) \<and>
   dmini_generate_string [] (Some [\<lparr>sec_name = None, sec_pairs = [\<lparr>pair_key = ''g'', pair_value = Some ''1''\<rparr>]\<rparr>,
      \<lparr>sec_name = Some ''a'', sec_pairs = [\<lparr>pair_key = ''k'', pair_value = Some ''v''\<rparr>]\<rparr>,
      \<lparr>sec_name = Some ''b'', sec_pairs = []\<rparr>])
    = (GenBuffer (''g=1'' @ [CHR 0x0A] @ ''[a]'' @ [CHR 0x0A] @ ''k=v'' @ [CHR 0x0A, CHR 0x0A] @ ''[b]'' @ [CHR 0x0A]), [])"
  using generate_string_layout [of
      "[\<lparr>sec_name = None, sec_pairs = [\<lparr>pair_key = ''g'', pair_value = Some ''1''\<rparr>]\<rparr>,
        \<lparr>sec_name = Some ''a'', sec_pairs = [\<lparr>pair_key = ''k'', pair_value = Some ''v''\<rparr>]\<rparr>,
        \<lparr>sec_name = Some ''b'', sec_pairs = []\<rparr>]" "[]"]
  by (simp add: values_present_def Dmod_Malloc_def section_lines_def pair_line_def)

subsection \<open>The global section stays\<close>

declare parse_loop.simps [simp del]
declare int_digits.simps [simp del]

lemma global_at_head_names:
  "global_at_head (Some secs) \<longleftrightarrow> (\<exists>t. map sec_name secs = None # t)"
  by (cases secs) (auto simp: global_at_head_def)

lemma update_pairs_names:
  "map sec_name (secs[i := (secs ! i)\<lparr>sec_pairs := ps\<rparr>]) = map sec_name secs"
proof (cases "i < length secs")
  case True
  then show ?thesis
    by (intro nth_equalityI) (auto simp: nth_list_update)
next
  case False
  then have "secs[i := (secs ! i)\<lparr>sec_pairs := ps\<rparr>] = secs"
    by (intro list_update_beyond) simp
  then show ?thesis by simp
qed

lemma set_pair_in_section_names:
  "set_pair_in_section h secs i k v = (r, secs', h') \<Longrightarrow> map sec_name secs' = map sec_name secs"
  by (auto simp: set_pair_in_section_def update_pairs_names split: option.splits prod.splits)

lemma get_or_create_section_names:
  "get_or_create_section h secs n = (i, secs', h') \<Longrightarrow>
     \<exists>t. map sec_name secs' = map sec_name secs @ t"
  by (auto simp: get_or_create_section_def split: option.splits prod.splits)

lemma parse_line_names:
  "parse_line h secs cur raw = (r, secs', cur', h') \<Longrightarrow>
     \<exists>t. map sec_name secs' = map sec_name secs @ t"
  unfolding parse_line_def Let_def
  by (fastforce split: list.splits if_splits option.splits prod.splits
      dest: get_or_create_section_names set_pair_in_section_names)

lemma parse_loop_names:
  "parse_loop h secs cur buf = (r, secs', h') \<Longrightarrow>
     \<exists>t. map sec_name secs' = map sec_name secs @ t"
proof (induction h secs cur buf arbitrary: r secs' h' rule: parse_loop.induct)
  case (1 h ctx current_section buf)
  show ?case
  proof (cases "buf = []")
    case True
    with "1.prems" show ?thesis by (simp add: parse_loop.simps)
  next
    case False
    obtain r1 ctx1 cur1 h1 where pl: "parse_line h ctx current_section (line_of buf) = (r1, ctx1, cur1, h1)"
      by (cases "parse_line h ctx current_section (line_of buf)") auto
    from parse_line_names [OF pl] obtain t1 where t1: "map sec_name ctx1 = map sec_name ctx @ t1"
      by blast
    show ?thesis
    proof (cases "r1 = DMINI_OK")
      case True
      with "1.prems" False pl have "parse_loop h1 ctx1 cur1 (next_line_of buf) = (r, secs', h')"
        by (subst (asm) parse_loop.simps) simp
      from "1.IH" [OF False pl [symmetric] refl refl True this] t1 show ?thesis
        by auto
    next
      case ne: False
      with "1.prems" False pl have "secs' = ctx1"
        by (subst (asm) parse_loop.simps) simp
      with t1 show ?thesis by blast
    qed
  qed
qed

lemma parse_string_head:
  assumes g: "global_at_head ctx"
  shows "global_at_head (fst (snd (dmini_parse_string h ctx data)))"
proof (cases ctx)
  case None
  with g show ?thesis by (simp add: global_at_head_def)
next
  case (Some secs)
  show ?thesis
  proof (cases data)
    case None
    with g Some show ?thesis by (simp add: dmini_parse_string_def)
  next
    case d: (Some d)
    obtain b h1 where sd: "string_duplicate h (Some d) = (b, h1)"
      by (cases "string_duplicate h (Some d)") auto
    show ?thesis
    proof (cases b)
      case None
      with g Some d sd show ?thesis by (simp add: dmini_parse_string_def)
    next
      case b: (Some buffer)
      obtain r secs' h2 where pl:
        "parse_loop h1 secs (if secs = [] then None else Some 0) buffer = (r, secs', h2)"
        by (cases "parse_loop h1 secs (if secs = [] then None else Some 0) buffer") auto
      from parse_loop_names [OF pl] g Some have "global_at_head (Some secs')"
        by (auto simp: global_at_head_names)
      with Some d sd b pl show ?thesis by (simp add: dmini_parse_string_def)
    qed
  qed
qed

lemma set_string_head:
  assumes g: "global_at_head ctx"
  shows "global_at_head (fst (snd (dmini_set_string h ctx section k v)))"
proof (cases ctx)
  case None
  with g show ?thesis by (simp add: global_at_head_def)
next
  case (Some secs)
  show ?thesis
  proof (cases "\<exists>ks vs. k = Some ks \<and> v = Some vs")
    case False
    with g Some show ?thesis
      by (cases k; cases v) (simp_all add: dmini_set_string_def)
  next
    case True
    then obtain ks vs where kv: "k = Some ks" "v = Some vs" by blast
    obtain i secs1 h1 where goc: "get_or_create_section h secs section = (i, secs1, h1)"
      by (cases "get_or_create_section h secs section") auto
    from get_or_create_section_names [OF goc] g Some have g1: "global_at_head (Some secs1)"
      by (auto simp: global_at_head_names)
    show ?thesis
    proof (cases i)
      case None
      with Some kv goc g1 show ?thesis by (simp add: dmini_set_string_def)
    next
      case i: (Some n)
      obtain r secs2 h2 where sp: "set_pair_in_section h1 secs1 (Some n) k v = (r, secs2, h2)"
        by (cases "set_pair_in_section h1 secs1 (Some n) k v") auto
      from set_pair_in_section_names [OF sp] g1 have "global_at_head (Some secs2)"
        by (simp add: global_at_head_names)
      with Some kv goc i sp show ?thesis by (simp add: dmini_set_string_def)
    qed
  qed
qed

lemma set_int_head:
  "global_at_head ctx \<Longrightarrow> global_at_head (fst (snd (dmini_set_int h ctx section k n)))"
  by (simp add: dmini_set_int_def set_string_head)

lemma remove_section_loop_nameless:
  "remove_section_loop secs name = Some secs' \<Longrightarrow>
     filter (\<lambda>s. sec_name s = None) secs' = filter (\<lambda>s. sec_name s = None) secs \<and>
     (global_at_head (Some secs) \<longrightarrow> global_at_head (Some secs'))"
proof (induction secs arbitrary: secs')
  case Nil
  then show ?case by simp
next
  case (Cons s ss)
  then show ?case
    by (cases "sec_name s") (auto simp: global_at_head_def split: if_splits)
qed

lemma remove_section_head:
  "global_at_head ctx \<Longrightarrow> global_at_head (snd (dmini_remove_section ctx section))"
  by (auto simp: dmini_remove_section_def split: option.splits dest: remove_section_loop_nameless)

lemma remove_key_head:
  "global_at_head ctx \<Longrightarrow> global_at_head (snd (dmini_remove_key ctx section k))"
  by (auto simp: dmini_remove_key_def global_at_head_names update_pairs_names split: option.splits)

lemma apply_operation_head:
  "global_at_head ctx \<Longrightarrow> global_at_head (fst (snd (apply_operation h ctx x)))"
proof (cases x)
  case (ParseString d)
  assume "global_at_head ctx"
  then show ?thesis using ParseString by (simp add: parse_string_head)
next
  case (SetString s k v)
  assume "global_at_head ctx"
  then show ?thesis using SetString by (simp add: set_string_head)
next
  case (SetInt s k n)
  assume "global_at_head ctx"
  then show ?thesis using SetInt by (simp add: set_int_head)
next
  case (RemoveSection s)
  assume "global_at_head ctx"
  from remove_section_head [OF this, of s] show ?thesis using RemoveSection
    by (cases "dmini_remove_section ctx s") simp
next
  case (RemoveKey s k)
  assume "global_at_head ctx"
  from remove_key_head [OF this, of s k] show ?thesis using RemoveKey
    by (cases "dmini_remove_key ctx s k") simp
qed

lemma run_operations_head:
  "global_at_head ctx \<Longrightarrow> global_at_head (fst (run_operations h ctx xs))"
proof (induction xs arbitrary: h ctx)
  case Nil
  then show ?case by simp
next
  case (Cons x xs)
  obtain r ctx1 h1 where a: "apply_operation h ctx x = (r, ctx1, h1)"
    by (cases "apply_operation h ctx x") auto
  from apply_operation_head [OF Cons.prems, of h x] a have "global_at_head ctx1" by simp
  from Cons.IH [OF this, of h1] a show ?case by simp
qed

lemma create_head: "dmini_create h = (Some c, h1) \<Longrightarrow> global_at_head (Some c)"
  by (auto simp: dmini_create_def create_section_def global_at_head_def
      split: prod.splits if_splits option.splits)

text \<open>
  Claim C4. Whatever calls to parse, set and remove follow a successful \<open>dmini_create\<close>,
  with whatever outcomes of the allocator, the context still starts with the nameless
  global section. \<open>dmini_remove_section\<close> with a null name returns \<open>DMINI_ERR_INVALID\<close>
  and leaves the context as it is, and with any name it leaves the nameless sections of
  the context untouched.
\<close>

theorem global_section_always_present:
  "(\<forall>c h1. dmini_create h = (Some c, h1) \<longrightarrow>
      global_at_head (fst (run_operations h1 (Some c) xs))) \<and>
   dmini_remove_section ctx None = (DMINI_ERR_INVALID, ctx) \<and>
   (\<forall>secs. ctx = Some secs \<longrightarrow>
      (\<exists>secs'. snd (dmini_remove_section ctx name) = Some secs' \<and>
         filter (\<lambda>s. sec_name s = None) secs' = filter (\<lambda>s. sec_name s = None) secs))"
proof -
  have a: "global_at_head (fst (run_operations h1 (Some c) xs))"
    if "dmini_create h = (Some c, h1)" for c h1
    using run_operations_head [OF create_head [OF that]] .
  have b: "dmini_remove_section ctx None = (DMINI_ERR_INVALID, ctx)"
    by (simp add: dmini_remove_section_def split: option.splits)
  have c: "\<exists>secs'. snd (dmini_remove_section ctx name) = Some secs' \<and>
         filter (\<lambda>s. sec_name s = None) secs' = filter (\<lambda>s. sec_name s = None) secs"
    if "ctx = Some secs" for secs
    using that
    by (auto simp: dmini_remove_section_def split: option.splits dest: remove_section_loop_nameless)
  from a b c show ?thesis by blast
qed

theorem global_section_always_present_witness:
  "dmini_create [] = (Some [\<lparr>sec_name = None, sec_pairs = []\<rparr>], []) \<and>
   global_at_head (fst (run_operations [] (Some [\<lparr>sec_name = None, sec_pairs = []\<rparr>])
     [SetString (Some ''a'') (Some ''k'') (Some ''v''), RemoveSection (Some ''a''),
      RemoveSection None, ParseString (Some ''[b]''), RemoveKey None (Some ''k'')])) \<and>
   dmini_remove_section (Some [\<lparr>sec_name = None, sec_pairs = []\<rparr>, \<lparr>sec_name = Some ''a'', sec_pairs = []\<rparr>]) None
     = (DMINI_ERR_INVALID, Some [\<lparr>sec_name = None, sec_pairs = []\<rparr>, \<lparr>sec_name = Some ''a'', sec_pairs = []\<rparr>]) \<and>
   snd (dmini_remove_section (Some [\<lparr>sec_name = None, sec_pairs = []\<rparr>, \<lparr>sec_name = Some ''a'', sec_pairs = []\<rparr>]) (Some ''a''))
     = Some [\<lparr>sec_name = None, sec_pairs = []\<rparr>]"
  using global_section_always_present [of "[]"
      "[SetString (Some ''a'') (Some ''k'') (Some ''v''), RemoveSection (Some ''a''),
        RemoveSection None, ParseString (Some ''[b]''), RemoveKey None (Some ''k'')]"
      "Some [\<lparr>sec_name = None, sec_pairs = []\<rparr>, \<lparr>sec_name = Some ''a'', sec_pairs = []\<rparr>]"
      "Some ''a''"]
  by (simp add: dmini_create_def create_section_def Dmod_Malloc_def dmini_remove_section_def)

subsection \<open>Setting a key\<close>

lemma find_section_append:
  "find_section (xs @ ys) n =
     (case find_section xs n of
        Some i \<Rightarrow> Some i
      | None \<Rightarrow> map_option (\<lambda>k. length xs + k) (find_section ys n))"
  by (induction xs; cases "find_section ys n") (auto split: option.splits)

lemma find_section_names_cong:
  "map sec_name a = map sec_name b \<Longrightarrow> find_section a n = find_section b n"
proof (induction a arbitrary: b)
  case Nil
  then show ?case by simp
next
  case (Cons x a)
  then obtain y b' where "b = y # b'" by (cases b) auto
  with Cons show ?case by auto
qed

lemma find_pair_loop_append:
  "find_pair_loop (xs @ ys) k =
     (case find_pair_loop xs k of
        Some i \<Rightarrow> Some i
      | None \<Rightarrow> map_option (\<lambda>j. length xs + j) (find_pair_loop ys k))"
  by (induction xs; cases "find_pair_loop ys k") (auto split: option.splits)

lemma find_pair_loop_keys_cong:
  "map pair_key a = map pair_key b \<Longrightarrow> find_pair_loop a k = find_pair_loop b k"
proof (induction a arbitrary: b)
  case Nil
  then show ?case by simp
next
  case (Cons x a)
  then obtain y b' where "b = y # b'" by (cases b) auto
  with Cons show ?case by auto
qed

lemma create_section_ok:
  "alloc_ok h \<Longrightarrow>
     create_section h n = (Some \<lparr>sec_name = n, sec_pairs = []\<rparr>, if n = None then tl h else tl (tl h))"
  by (cases n) (simp_all add: create_section_def Dmod_Malloc_ok string_duplicate_ok alloc_ok_tl)

lemma create_pair_ok:
  "alloc_ok h \<Longrightarrow>
     create_pair h (Some ks) (Some vs) = (Some \<lparr>pair_key = ks, pair_value = Some vs\<rparr>, tl (tl (tl h)))"
  by (simp add: create_pair_def Dmod_Malloc_ok string_duplicate_ok alloc_ok_tl)

lemma get_or_create_section_ok:
  assumes "alloc_ok h"
  shows "\<exists>i secs1 h1. get_or_create_section h secs n = (Some i, secs1, h1) \<and>
           find_section secs1 n = Some i \<and> i < length secs1 \<and> alloc_ok h1 \<and>
           (find_section secs n = Some i \<and> secs1 = secs \<and> h1 = h \<or>
            find_section secs n = None \<and> secs1 = secs @ [\<lparr>sec_name = n, sec_pairs = []\<rparr>] \<and>
              i = length secs)"
proof (cases "find_section secs n")
  case None
  then show ?thesis
    using assms
    by (simp add: get_or_create_section_def create_section_ok find_section_append alloc_ok_tl)
next
  case (Some i)
  then show ?thesis
    using assms find_section_Some [OF Some] by (simp add: get_or_create_section_def)
qed

text \<open>Setting an existing key: only the value of the pair found changes.\<close>

lemma set_pair_existing:
  assumes "find_pair (secs ! i) ks = Some j" and "fst (Dmod_Malloc h)"
  shows "set_pair_in_section h secs (Some i) (Some ks) (Some vs)
       = (DMINI_OK,
          secs[i := (secs ! i)\<lparr>sec_pairs :=
                  (sec_pairs (secs ! i))[j := \<lparr>pair_key = ks, pair_value = Some vs\<rparr>]\<rparr>],
          snd (Dmod_Malloc h))"
proof -
  from find_pair_loop_Some [of "sec_pairs (secs ! i)" ks j] assms(1)
  have "pair_key (sec_pairs (secs ! i) ! j) = ks"
    by (simp add: find_pair_def)
  then have "(sec_pairs (secs ! i) ! j)\<lparr>pair_value := Some vs\<rparr>
      = \<lparr>pair_key = ks, pair_value = Some vs\<rparr>"
    by (cases "sec_pairs (secs ! i) ! j") simp
  then show ?thesis
    using assms
    by (cases "Dmod_Malloc h") (simp add: set_pair_in_section_def string_duplicate_def)
qed

lemma set_pair_in_section_ok:
  assumes "alloc_ok h" and "i < length secs"
  shows "\<exists>secs2 h2 j. set_pair_in_section h secs (Some i) (Some ks) (Some vs) = (DMINI_OK, secs2, h2) \<and>
           find_pair (secs2 ! i) ks = Some j \<and>
           sec_pairs (secs2 ! i) ! j = \<lparr>pair_key = ks, pair_value = Some vs\<rparr> \<and>
           map sec_name secs2 = map sec_name secs \<and> alloc_ok h2"
proof (cases "find_pair (secs ! i) ks")
  case None
  then have fp: "find_pair_loop (sec_pairs (secs ! i)) ks = None"
    by (simp add: find_pair_def)
  have "set_pair_in_section h secs (Some i) (Some ks) (Some vs)
      = (DMINI_OK,
         secs[i := (secs ! i)\<lparr>sec_pairs := sec_pairs (secs ! i) @ [\<lparr>pair_key = ks, pair_value = Some vs\<rparr>]\<rparr>],
         tl (tl (tl h)))"
    using assms(1) None by (simp add: set_pair_in_section_def create_pair_ok)
  moreover have "find_pair_loop (sec_pairs (secs ! i) @ [\<lparr>pair_key = ks, pair_value = Some vs\<rparr>]) ks
      = Some (length (sec_pairs (secs ! i)))"
    by (simp add: find_pair_loop_append fp)
  ultimately show ?thesis
    using assms by (simp add: find_pair_def update_pairs_names alloc_ok_tl)
next
  case (Some j)
  from find_pair_loop_Some [of "sec_pairs (secs ! i)" ks j] Some
  have j: "j < length (sec_pairs (secs ! i))"
    by (simp add: find_pair_def)
  have ok: "fst (Dmod_Malloc h)" "alloc_ok (snd (Dmod_Malloc h))"
    using assms(1) by (simp_all add: Dmod_Malloc_ok alloc_ok_tl)
  have "map pair_key ((sec_pairs (secs ! i))[j := \<lparr>pair_key = ks, pair_value = Some vs\<rparr>])
      = map pair_key (sec_pairs (secs ! i))"
    using find_pair_loop_Some [of "sec_pairs (secs ! i)" ks j] Some
    by (intro nth_equalityI) (auto simp: find_pair_def nth_list_update)
  from find_pair_loop_keys_cong [OF this, of ks] Some
  have "find_pair_loop ((sec_pairs (secs ! i))[j := \<lparr>pair_key = ks, pair_value = Some vs\<rparr>]) ks = Some j"
    by (simp add: find_pair_def)
  then show ?thesis
    using set_pair_existing [OF Some ok(1), of vs] assms(2) j ok(2)
    by (simp add: find_pair_def update_pairs_names)
qed

lemma set_string_ok:
  assumes "alloc_ok h"
  shows "\<exists>secs2 h2 i j. dmini_set_string h (Some secs) section (Some ks) (Some vs) = (DMINI_OK, Some secs2, h2) \<and>
           find_section secs2 section = Some i \<and>
           find_pair (secs2 ! i) ks = Some j \<and>
           sec_pairs (secs2 ! i) ! j = \<lparr>pair_key = ks, pair_value = Some vs\<rparr> \<and>
           i < length secs2 \<and> j < length (sec_pairs (secs2 ! i)) \<and> alloc_ok h2"
proof -
  from get_or_create_section_ok [OF assms, of secs "section"]
  obtain i secs1 h1 where goc: "get_or_create_section h secs section = (Some i, secs1, h1)"
    and fs: "find_section secs1 section = Some i" and i: "i < length secs1" and h1: "alloc_ok h1"
    by blast
  from set_pair_in_section_ok [OF h1 i, of ks vs]
  obtain secs2 h2 j where sp: "set_pair_in_section h1 secs1 (Some i) (Some ks) (Some vs) = (DMINI_OK, secs2, h2)"
    and fp: "find_pair (secs2 ! i) ks = Some j"
    and pj: "sec_pairs (secs2 ! i) ! j = \<lparr>pair_key = ks, pair_value = Some vs\<rparr>"
    and names: "map sec_name secs2 = map sec_name secs1" and h2: "alloc_ok h2"
    by blast
  have "dmini_set_string h (Some secs) section (Some ks) (Some vs) = (DMINI_OK, Some secs2, h2)"
    by (simp add: dmini_set_string_def goc sp)
  moreover have "find_section secs2 section = Some i"
    using find_section_names_cong [OF names, of "section"] fs by simp
  moreover have "i < length secs2"
    using i map_eq_imp_length_eq [OF names] by simp
  moreover have "j < length (sec_pairs (secs2 ! i))"
    using find_pair_loop_Some [of "sec_pairs (secs2 ! i)" ks j] fp by (simp add: find_pair_def)
  ultimately show ?thesis using fp pj h2 by blast
qed

text \<open>
  Claim C9. When the key already exists in the section and the copy of the value is
  granted, \<open>dmini_set_string\<close> returns \<open>DMINI_OK\<close> and the context differs from the old
  one only in the value of the pair found: same position of the key, same number of
  pairs in the section, same number of sections. And, with memory available, a second
  call with the same arguments returns \<open>DMINI_OK\<close> and leaves the context exactly as the
  first call left it.
\<close>

theorem set_string_overwrites_in_place:
  "(find_section secs section = Some i \<and> find_pair (secs ! i) ks = Some j \<and> fst (Dmod_Malloc h) \<longrightarrow>
      dmini_set_string h (Some secs) section (Some ks) (Some vs)
        = (DMINI_OK,
           Some (secs[i := (secs ! i)\<lparr>sec_pairs :=
                    (sec_pairs (secs ! i))[j := \<lparr>pair_key = ks, pair_value = Some vs\<rparr>]\<rparr>]),
           snd (Dmod_Malloc h)) \<and>
      length (secs[i := (secs ! i)\<lparr>sec_pairs :=
                    (sec_pairs (secs ! i))[j := \<lparr>pair_key = ks, pair_value = Some vs\<rparr>]\<rparr>]) = length secs \<and>
      length (sec_pairs ((secs[i := (secs ! i)\<lparr>sec_pairs :=
                    (sec_pairs (secs ! i))[j := \<lparr>pair_key = ks, pair_value = Some vs\<rparr>]\<rparr>]) ! i))
        = length (sec_pairs (secs ! i)) \<and>
      pair_key (sec_pairs ((secs[i := (secs ! i)\<lparr>sec_pairs :=
                    (sec_pairs (secs ! i))[j := \<lparr>pair_key = ks, pair_value = Some vs\<rparr>]\<rparr>]) ! i) ! j) = ks) \<and>
   (alloc_ok h \<longrightarrow>
      (\<exists>secs1 h1 h2.
         dmini_set_string h (Some secs) section (Some ks) (Some vs) = (DMINI_OK, Some secs1, h1) \<and>
         dmini_set_string h1 (Some secs1) section (Some ks) (Some vs) = (DMINI_OK, Some secs1, h2)))"
proof (intro conjI impI)
  assume a: "find_section secs section = Some i \<and> find_pair (secs ! i) ks = Some j \<and> fst (Dmod_Malloc h)"
  then have fs: "find_section secs section = Some i" and fp: "find_pair (secs ! i) ks = Some j"
    and ok: "fst (Dmod_Malloc h)"
    by simp_all
  from find_section_Some [OF fs] have i: "i < length secs" by simp
  from find_pair_loop_Some [of "sec_pairs (secs ! i)" ks j] fp
  have j: "j < length (sec_pairs (secs ! i))" by (simp add: find_pair_def)
  show "dmini_set_string h (Some secs) section (Some ks) (Some vs)
        = (DMINI_OK,
           Some (secs[i := (secs ! i)\<lparr>sec_pairs :=
                    (sec_pairs (secs ! i))[j := \<lparr>pair_key = ks, pair_value = Some vs\<rparr>]\<rparr>]),
           snd (Dmod_Malloc h))"
    by (simp add: dmini_set_string_def get_or_create_section_def fs set_pair_existing [OF fp ok])
  show "length (secs[i := (secs ! i)\<lparr>sec_pairs :=
                    (sec_pairs (secs ! i))[j := \<lparr>pair_key = ks, pair_value = Some vs\<rparr>]\<rparr>]) = length secs"
    by simp
  show "length (sec_pairs ((secs[i := (secs ! i)\<lparr>sec_pairs :=
                    (sec_pairs (secs ! i))[j := \<lparr>pair_key = ks, pair_value = Some vs\<rparr>]\<rparr>]) ! i))
        = length (sec_pairs (secs ! i))"
    using i by simp
  show "pair_key (sec_pairs ((secs[i := (secs ! i)\<lparr>sec_pairs :=
                    (sec_pairs (secs ! i))[j := \<lparr>pair_key = ks, pair_value = Some vs\<rparr>]\<rparr>]) ! i) ! j) = ks"
    using i j by simp
next
  assume h: "alloc_ok h"
  from set_string_ok [OF h, of secs "section" ks vs]
  obtain secs1 h1 i1 j1 where
    first: "dmini_set_string h (Some secs) section (Some ks) (Some vs) = (DMINI_OK, Some secs1, h1)"
    and fs: "find_section secs1 section = Some i1"
    and fp: "find_pair (secs1 ! i1) ks = Some j1"
    and pj: "sec_pairs (secs1 ! i1) ! j1 = \<lparr>pair_key = ks, pair_value = Some vs\<rparr>"
    and h1: "alloc_ok h1"
    by blast
  have ok: "fst (Dmod_Malloc h1)"
    using h1 by (simp add: Dmod_Malloc_ok)
  have "(sec_pairs (secs1 ! i1))[j1 := \<lparr>pair_key = ks, pair_value = Some vs\<rparr>] = sec_pairs (secs1 ! i1)"
    using pj list_update_id [of "sec_pairs (secs1 ! i1)" j1] by simp
  then have "secs1[i1 := (secs1 ! i1)\<lparr>sec_pairs :=
        (sec_pairs (secs1 ! i1))[j1 := \<lparr>pair_key = ks, pair_value = Some vs\<rparr>]\<rparr>] = secs1"
    by simp
  then have "dmini_set_string h1 (Some secs1) section (Some ks) (Some vs)
      = (DMINI_OK, Some secs1, snd (Dmod_Malloc h1))"
    by (simp add: dmini_set_string_def get_or_create_section_def fs set_pair_existing [OF fp ok])
  with first show "\<exists>secs1 h1 h2.
         dmini_set_string h (Some secs) section (Some ks) (Some vs) = (DMINI_OK, Some secs1, h1) \<and>
         dmini_set_string h1 (Some secs1) section (Some ks) (Some vs) = (DMINI_OK, Some secs1, h2)"
    by blast
qed

theorem set_string_overwrites_in_place_witness:
  "find_section [\<lparr>sec_name = None, sec_pairs = [\<lparr>pair_key = ''a'', pair_value = Some ''1''\<rparr>,
        \<lparr>pair_key = ''b'', pair_value = Some ''2''\<rparr>]\<rparr>] None = Some 0 \<and>
   find_pair \<lparr>sec_name = None, sec_pairs = [\<lparr>pair_key = ''a'', pair_value = Some ''1''\<rparr>,
        \<lparr>pair_key = ''b'', pair_value = Some ''2''\<rparr>]\<rparr> ''a'' = Some 0 \<and>
   fst (Dmod_Malloc []) \<and> alloc_ok [] \<and>
   dmini_set_string [] (Some [\<lparr>sec_name = None, sec_pairs = [\<lparr>pair_key = ''a'', pair_value = Some ''1''\<rparr>,
        \<lparr>pair_key = ''b'', pair_value = Some ''2''\<rparr>]\<rparr>]) None (Some ''a'') (Some ''9'')
     = (DMINI_OK,
        Some [\<lparr>sec_name = None, sec_pairs = [\<lparr>pair_key = ''a'', pair_value = Some ''9''\<rparr>,
          \<lparr>pair_key = ''b'', pair_value = Some ''2''\<rparr>]\<rparr>], []) \<and>
   (\<exists>secs1 h1 h2.
      dmini_set_string [] (Some [\<lparr>sec_name = None, sec_pairs = [\<lparr>pair_key = ''a'', pair_value = Some ''1''\<rparr>,
        \<lparr>pair_key = ''b'', pair_value = Some ''2''\<rparr>]\<rparr>]) None (Some ''a'') (Some ''9'')
        = (DMINI_OK, Some secs1, h1) \<and>
      dmini_set_string h1 (Some secs1) None (Some ''a'') (Some ''9'') = (DMINI_OK, Some secs1, h2))"
  using set_string_overwrites_in_place [of
      "[\<lparr>sec_name = None, sec_pairs = [\<lparr>pair_key = ''a'', pair_value = Some ''1''\<rparr>,
        \<lparr>pair_key = ''b'', pair_value = Some ''2''\<rparr>]\<rparr>]" None 0 "''a''" 0 "[]" "''9''"]
  by (auto simp: find_pair_def Dmod_Malloc_def alloc_ok_def)

subsection \<open>The line loop\<close>

lemma trim_whitespace_Nil: "trim_whitespace [] = []"
  by (simp add: trim_whitespace_def)

lemma trim_whitespace_blank:
  assumes "\<forall>c\<in>set s. is_space c"
  shows "trim_whitespace s = []"
proof -
  from assms have d: "dropWhile is_space s = []" by simp
  show ?thesis unfolding trim_whitespace_def d by simp
qed

lemma trim_whitespace_id:
  assumes "s \<noteq> []" and "\<not> is_space (hd s)" and "\<not> is_space (last s)"
  shows "trim_whitespace s = s"
proof -
  from assms(1) obtain c cs where s: "s = c # cs" by (cases s) auto
  have "rev (dropWhile is_space (rev cs)) = cs"
  proof (cases "cs = []")
    case True
    then show ?thesis by simp
  next
    case False
    then have "hd (rev cs) = last cs" by (simp add: hd_rev)
    with assms(3) s False have "\<not> is_space (hd (rev cs))" by simp
    with False have "dropWhile is_space (rev cs) = rev cs"
      by (cases "rev cs") auto
    then show ?thesis by simp
  qed
  with assms(2) s show ?thesis by (simp add: trim_whitespace_def)
qed

lemma parse_line_blank: "parse_line h ctx cur [] = (DMINI_OK, ctx, cur, h)"
  by (simp add: parse_line_def trim_whitespace_Nil)

lemma parse_loop_Nil: "parse_loop h ctx cur [] = (DMINI_OK, ctx, h)"
  by (simp add: parse_loop.simps)

text \<open>A terminator byte at the start of the buffer is an empty line.\<close>

lemma parse_loop_skip_eol:
  "is_eol t \<Longrightarrow> parse_loop h ctx cur (t # buf) = parse_loop h ctx cur buf"
proof (induction "length buf" arbitrary: t buf rule: less_induct)
  case less
  have lo: "line_of (t # buf) = []"
    using less.prems by (simp add: line_of_def)
  have nx: "next_line_of (t # buf) = (case buf of [] \<Rightarrow> [] | c # r \<Rightarrow> if is_eol c then r else buf)"
    using less.prems by (simp add: next_line_of_def)
  have step: "parse_loop h ctx cur (t # buf) = parse_loop h ctx cur (next_line_of (t # buf))"
    by (subst parse_loop.simps) (simp add: lo parse_line_blank)
  show ?case
  proof (cases buf)
    case Nil
    with step nx show ?thesis by simp
  next
    case (Cons c r)
    show ?thesis
    proof (cases "is_eol c")
      case True
      have "parse_loop h ctx cur (c # r) = parse_loop h ctx cur r"
        by (rule less.hyps) (simp_all add: Cons True)
      with step nx Cons True show ?thesis by simp
    next
      case False
      with step nx Cons show ?thesis by simp
    qed
  qed
qed

lemma parse_loop_next_line:
  "parse_loop h ctx cur (next_line_of buf)
     = parse_loop h ctx cur (tl (dropWhile (\<lambda>c. \<not> is_eol c) buf))"
proof (cases "dropWhile (\<lambda>c. \<not> is_eol c) buf")
  case Nil
  show ?thesis unfolding next_line_of_def Nil by simp
next
  case (Cons t r)
  show ?thesis
  proof (cases r)
    case Nil
    show ?thesis unfolding next_line_of_def Cons Nil by simp
  next
    case c: (Cons c r')
    show ?thesis unfolding next_line_of_def Cons c
      by (simp add: parse_loop_skip_eol)
  qed
qed

text \<open>One turn of the loop, with the rest of the buffer in a simpler form.\<close>

lemma parse_loop_step:
  assumes "buf \<noteq> []"
    and "parse_line h ctx cur (line_of buf) = (r, ctx', cur', h')"
  shows "parse_loop h ctx cur buf =
           (if r = DMINI_OK then parse_loop h' ctx' cur' (tl (dropWhile (\<lambda>c. \<not> is_eol c) buf))
            else (r, ctx', h'))"
  using assms by (subst parse_loop.simps) (simp add: parse_loop_next_line)

lemma line_of_append_eol:
  "\<forall>c\<in>set l. \<not> is_eol c \<Longrightarrow> is_eol t \<Longrightarrow> line_of (l @ t # buf) = l"
  by (simp add: line_of_def takeWhile_append2)

lemma rest_append_eol:
  "\<forall>c\<in>set l. \<not> is_eol c \<Longrightarrow> is_eol t \<Longrightarrow>
     tl (dropWhile (\<lambda>c. \<not> is_eol c) (l @ t # buf)) = buf"
  by (simp add: dropWhile_append2)

lemma parse_loop_line:
  assumes "\<forall>c\<in>set l. \<not> is_eol c" and "is_eol t"
    and "parse_line h ctx cur l = (r, ctx', cur', h')"
  shows "parse_loop h ctx cur (l @ t # buf) =
           (if r = DMINI_OK then parse_loop h' ctx' cur' buf else (r, ctx', h'))"
  using parse_loop_step [of "l @ t # buf" h ctx cur r ctx' cur' h'] assms
  by (simp add: line_of_append_eol rest_append_eol)

subsection \<open>Malformed lines\<close>

lemma parse_line_unclosed_header:
  assumes dn: "dropWhile (\<lambda>x. x \<noteq> CHR '']'') rest = []"
    and c: "trim_whitespace l = CHR ''['' # rest"
  shows "parse_line h ctx cur l = (DMINI_OK, ctx, cur, h)"
  apply (simp only: parse_line_def c list.case)
  apply (simp only: dn list.case)
  apply simp
  done

lemma parse_line_malformed:
  assumes "malformed_line l"
  shows "parse_line h ctx cur l = (DMINI_OK, ctx, cur, h)"
proof (cases "trim_whitespace l")
  case Nil
  with assms show ?thesis by (simp add: malformed_line_def)
next
  case (Cons c rest)
  show ?thesis
  proof (cases "c = CHR ''[''")
    case True
    with assms Cons have "CHR '']'' \<notin> set rest"
      by (simp add: malformed_line_def)
    then have dn: "dropWhile (\<lambda>x. x \<noteq> CHR '']'') rest = []"
      by (auto simp: dropWhile_eq_Nil_conv)
    show ?thesis
      by (rule parse_line_unclosed_header [OF dn]) (simp add: Cons True)
  next
    case False
    with assms Cons have m: "CHR ''='' \<notin> set (c # rest) \<or>
        trim_whitespace (takeWhile (\<lambda>x. x \<noteq> CHR ''='') (c # rest)) = []"
      by (simp add: malformed_line_def)
    show ?thesis
    proof (cases "dropWhile (\<lambda>x. x \<noteq> CHR ''='') (c # rest)")
      case Nil
      show ?thesis
        unfolding parse_line_def Cons list.case Nil using False by simp
    next
      case d: (Cons e after)
      have "CHR ''='' \<in> set (c # rest)"
      proof (rule ccontr)
        assume "CHR ''='' \<notin> set (c # rest)"
        then have "dropWhile (\<lambda>x. x \<noteq> CHR ''='') (c # rest) = []"
          by (auto simp: dropWhile_eq_Nil_conv)
        with d show False by simp
      qed
      with m have "trim_whitespace (takeWhile (\<lambda>x. x \<noteq> CHR ''='') (c # rest)) = []"
        by blast
      then show ?thesis
        unfolding parse_line_def Cons list.case d using False by (simp add: Let_def)
    qed
  qed
qed

lemma parse_line_ok:
  assumes "alloc_ok h" and "i < length ctx"
  shows "\<exists>ctx' i' h'. parse_line h ctx (Some i) l = (DMINI_OK, ctx', Some i', h') \<and>
           i' < length ctx' \<and> alloc_ok h'"
proof (cases "trim_whitespace l")
  case Nil
  then show ?thesis using assms by (simp add: parse_line_def)
next
  case (Cons c rest)
  show ?thesis
  proof (cases "c = CHR '';'' \<or> c = CHR ''#''")
    case True
    then show ?thesis unfolding parse_line_def Cons using assms by auto
  next
    case nc: False
    show ?thesis
    proof (cases "c = CHR ''[''")
      case True
      show ?thesis
      proof (cases "dropWhile (\<lambda>x. x \<noteq> CHR '']'') rest")
        case Nil
        show ?thesis unfolding parse_line_def Cons list.case Nil using True nc assms by simp
      next
        case d: (Cons e r)
        from get_or_create_section_ok [OF assms(1), of ctx
            "Some (trim_whitespace (takeWhile (\<lambda>x. x \<noteq> CHR '']'') rest))"]
        obtain j ctx1 h1 where
          "get_or_create_section h ctx (Some (trim_whitespace (takeWhile (\<lambda>x. x \<noteq> CHR '']'') rest)))
             = (Some j, ctx1, h1)" and "j < length ctx1" and "alloc_ok h1"
          by blast
        then show ?thesis unfolding parse_line_def Cons list.case d using True nc by simp
      qed
    next
      case nb: False
      show ?thesis
      proof (cases "dropWhile (\<lambda>x. x \<noteq> CHR ''='') (c # rest)")
        case Nil
        show ?thesis unfolding parse_line_def Cons list.case Nil using nb nc assms by simp
      next
        case d: (Cons e after)
        show ?thesis
        proof (cases "trim_whitespace (takeWhile (\<lambda>x. x \<noteq> CHR ''='') (c # rest)) = []")
          case True
          then show ?thesis
            unfolding parse_line_def Cons list.case d using nb nc assms by (simp add: Let_def)
        next
          case False
          from set_pair_in_section_ok [OF assms, of
              "trim_whitespace (takeWhile (\<lambda>x. x \<noteq> CHR ''='') (c # rest))" "trim_whitespace after"]
          obtain ctx2 h2 where sp: "set_pair_in_section h ctx (Some i)
                (Some (trim_whitespace (takeWhile (\<lambda>x. x \<noteq> CHR ''='') (c # rest))))
                (Some (trim_whitespace after)) = (DMINI_OK, ctx2, h2)"
            and names: "map sec_name ctx2 = map sec_name ctx" and "alloc_ok h2"
            by blast
          from map_eq_imp_length_eq [OF names] assms(2) have "i < length ctx2" by simp
          with sp \<open>alloc_ok h2\<close> False show ?thesis
            unfolding parse_line_def Cons list.case d using nb nc by (simp add: Let_def)
        qed
      qed
    qed
  qed
qed

lemma rest_shorter:
  assumes "buf \<noteq> []"
  shows "length (tl (dropWhile P buf)) < length buf"
proof (cases "dropWhile P buf")
  case Nil
  show ?thesis unfolding Nil using assms by simp
next
  case (Cons t r)
  have "length (dropWhile P buf) \<le> length buf"
    by (rule length_dropWhile_le)
  then show ?thesis unfolding Cons by simp
qed

lemma parse_loop_ok:
  "alloc_ok h \<Longrightarrow> i < length ctx \<Longrightarrow>
     \<exists>ctx' h'. parse_loop h ctx (Some i) buf = (DMINI_OK, ctx', h') \<and> alloc_ok h'"
proof (induction "length buf" arbitrary: h ctx i buf rule: less_induct)
  case less
  show ?case
  proof (cases "buf = []")
    case True
    with less.prems show ?thesis by (simp add: parse_loop_Nil)
  next
    case False
    from parse_line_ok [OF less.prems, of "line_of buf"]
    obtain ctx1 i1 h1 where pl: "parse_line h ctx (Some i) (line_of buf) = (DMINI_OK, ctx1, Some i1, h1)"
      and i1: "i1 < length ctx1" and h1: "alloc_ok h1"
      by blast
    have "length (tl (dropWhile (\<lambda>c. \<not> is_eol c) buf)) < length buf"
      by (rule rest_shorter [OF False])
    from less.hyps [OF this h1 i1] parse_loop_step [OF False pl]
    show ?thesis by simp
  qed
qed

lemma parse_loop_drop_malformed:
  assumes "malformed_line l" and "\<forall>c\<in>set l. \<not> is_eol c" and "is_eol t"
  shows "pre = [] \<or> is_eol (last pre) \<Longrightarrow>
     parse_loop h ctx cur (pre @ l @ t # buf) = parse_loop h ctx cur (pre @ buf)"
proof (induction "length pre" arbitrary: h ctx cur pre rule: less_induct)
  case less
  show ?case
  proof (cases "pre = []")
    case True
    then show ?thesis
      using parse_loop_line [OF assms(2,3) parse_line_malformed [OF assms(1)], of h ctx cur buf]
      by simp
  next
    case False
    with less.prems have eol: "is_eol (last pre)" by simp
    with False have "\<exists>c\<in>set pre. is_eol c"
      using last_in_set by blast
    then obtain t' pre' where d: "dropWhile (\<lambda>c. \<not> is_eol c) pre = t' # pre'"
      by (cases "dropWhile (\<lambda>c. \<not> is_eol c) pre") (auto simp: dropWhile_eq_Nil_conv)
    define l0 where "l0 = takeWhile (\<lambda>c. \<not> is_eol c) pre"
    have pre: "pre = l0 @ t' # pre'"
      using takeWhile_dropWhile_id [of "\<lambda>c. \<not> is_eol c" pre] d by (simp add: l0_def)
    have l0: "\<forall>c\<in>set l0. \<not> is_eol c"
      by (auto simp: l0_def dest: set_takeWhileD)
    have t': "is_eol t'"
      using hd_dropWhile [of "\<lambda>c. \<not> is_eol c" pre] d by simp
    have pre': "pre' = [] \<or> is_eol (last pre')"
      using eol pre by (auto split: if_splits)
    have len: "length pre' < length pre"
      using pre by simp
    obtain r ctx1 cur1 h1 where pl: "parse_line h ctx cur l0 = (r, ctx1, cur1, h1)"
      by (cases "parse_line h ctx cur l0") auto
    have "parse_loop h ctx cur (l0 @ t' # (pre' @ l @ t # buf))
        = (if r = DMINI_OK then parse_loop h1 ctx1 cur1 (pre' @ l @ t # buf) else (r, ctx1, h1))"
      by (rule parse_loop_line [OF l0 t' pl])
    moreover have "parse_loop h ctx cur (l0 @ t' # (pre' @ buf))
        = (if r = DMINI_OK then parse_loop h1 ctx1 cur1 (pre' @ buf) else (r, ctx1, h1))"
      by (rule parse_loop_line [OF l0 t' pl])
    moreover have "parse_loop h1 ctx1 cur1 (pre' @ l @ t # buf) = parse_loop h1 ctx1 cur1 (pre' @ buf)"
      by (rule less.hyps [OF len pre'])
    ultimately show ?thesis
      by (simp add: pre)
  qed
qed

text \<open>
  Claim C6. A malformed line (a header without its closing bracket, a line without
  \<^verbatim>\<open>=\<close>, a line with an empty key) leaves the context, the current section and the
  allocator as they were and reports no error; the parse of a text that holds such a
  line between whole lines is the parse of the text without it, so the lines after it
  are processed as usual; and on a context that has its global section, when no
  allocation fails, \<open>dmini_parse_string\<close> returns \<open>DMINI_OK\<close> for every input.
\<close>

theorem parse_string_tolerates_malformed_lines:
  "(malformed_line l \<longrightarrow> parse_line h ctx cur l = (DMINI_OK, ctx, cur, h)) \<and>
   (malformed_line l \<and> (\<forall>c\<in>set l. \<not> is_eol c) \<and> is_eol t \<and> (pre = [] \<or> is_eol (last pre)) \<longrightarrow>
      dmini_parse_string h (Some ctx) (Some (pre @ l @ t # buf))
        = dmini_parse_string h (Some ctx) (Some (pre @ buf))) \<and>
   (alloc_ok h \<and> ctx \<noteq> [] \<longrightarrow>
      (\<exists>ctx' h'. dmini_parse_string h (Some ctx) (Some data) = (DMINI_OK, Some ctx', h')))"
proof (intro conjI impI)
  assume "malformed_line l"
  then show "parse_line h ctx cur l = (DMINI_OK, ctx, cur, h)"
    by (rule parse_line_malformed)
next
  assume a: "malformed_line l \<and> (\<forall>c\<in>set l. \<not> is_eol c) \<and> is_eol t \<and> (pre = [] \<or> is_eol (last pre))"
  then have eq: "parse_loop h1 ctx c1 (pre @ l @ t # buf) = parse_loop h1 ctx c1 (pre @ buf)" for h1 c1
    using parse_loop_drop_malformed [of l t pre h1 ctx c1 buf] by blast
  show "dmini_parse_string h (Some ctx) (Some (pre @ l @ t # buf))
        = dmini_parse_string h (Some ctx) (Some (pre @ buf))"
    by (cases "Dmod_Malloc h") (simp add: dmini_parse_string_def string_duplicate_def eq)
next
  assume a: "alloc_ok h \<and> ctx \<noteq> []"
  then have h1: "alloc_ok (tl h)" and pos: "0 < length ctx"
    by (simp_all add: alloc_ok_tl)
  from parse_loop_ok [OF h1 pos, of data]
  obtain ctx' h' where "parse_loop (tl h) ctx (Some 0) data = (DMINI_OK, ctx', h')"
    by blast
  with a show "\<exists>ctx' h'. dmini_parse_string h (Some ctx) (Some data) = (DMINI_OK, Some ctx', h')"
    by (simp add: dmini_parse_string_def string_duplicate_ok)
qed

theorem parse_string_tolerates_malformed_lines_witness:
  "malformed_line ''[broken'' \<and> list_all (\<lambda>c. \<not> is_eol c) ''[broken'' \<and> is_eol (CHR 0x0A) \<and>
   is_eol (last (''a=1'' @ [CHR 0x0A])) \<and> alloc_ok [] \<and>
   parse_line [] [\<lparr>sec_name = None, sec_pairs = []\<rparr>] (Some 0) ''[broken''
     = (DMINI_OK, [\<lparr>sec_name = None, sec_pairs = []\<rparr>], Some 0, []) \<and>
   dmini_parse_string [] (Some [\<lparr>sec_name = None, sec_pairs = []\<rparr>])
       (Some ((''a=1'' @ [CHR 0x0A]) @ ''[broken'' @ CHR 0x0A # ''b=2''))
     = dmini_parse_string [] (Some [\<lparr>sec_name = None, sec_pairs = []\<rparr>])
       (Some ((''a=1'' @ [CHR 0x0A]) @ ''b=2'')) \<and>
   (\<exists>ctx' h'. dmini_parse_string [] (Some [\<lparr>sec_name = None, sec_pairs = []\<rparr>])
       (Some (''=v'' @ [CHR 0x0D, CHR 0x0A] @ ''novalue'')) = (DMINI_OK, Some ctx', h'))"
proof -
  have m: "malformed_line ''[broken''"
    by (simp add: malformed_line_def trim_whitespace_def is_space_def)
  have e: "\<forall>c\<in>set ''[broken''. \<not> is_eol c" "is_eol (CHR 0x0A)"
      "is_eol (last (''a=1'' @ [CHR 0x0A]))" "list_all (\<lambda>c. \<not> is_eol c) ''[broken''"
    by (simp_all add: is_eol_def)
  have a: "alloc_ok []"
    by (simp add: alloc_ok_def)
  show ?thesis
    using parse_string_tolerates_malformed_lines [of "''[broken''" "[]"
        "[\<lparr>sec_name = None, sec_pairs = []\<rparr>]" "Some 0" "CHR 0x0A" "''a=1'' @ [CHR 0x0A]" "''b=2''"
        "''=v'' @ [CHR 0x0D, CHR 0x0A] @ ''novalue''"] m e a
    by blast
qed

subsection \<open>Well-formed lines\<close>

lemma trim_whitespace_trimmed: "trimmed s \<Longrightarrow> trim_whitespace s = s"
  by (cases "s = []") (simp_all add: trimmed_def trim_whitespace_Nil trim_whitespace_id)

lemma takeWhile_upto: "x \<notin> set k \<Longrightarrow> takeWhile (\<lambda>c. c \<noteq> x) (k @ x # v) = k"
  by (induction k) auto

lemma dropWhile_upto: "x \<notin> set k \<Longrightarrow> dropWhile (\<lambda>c. c \<noteq> x) (k @ x # v) = x # v"
  by (induction k) auto

lemma parse_line_pair_steps:
  assumes t: "trim_whitespace l = c # rest"
    and c: "c \<noteq> CHR '';''" "c \<noteq> CHR ''#''" "c \<noteq> CHR ''[''"
    and d: "dropWhile (\<lambda>x. x \<noteq> CHR ''='') (c # rest) = e # after"
    and k: "trim_whitespace (takeWhile (\<lambda>x. x \<noteq> CHR ''='') (c # rest)) = k" "k \<noteq> []"
    and v: "trim_whitespace after = v"
  shows "parse_line h ctx cur l =
           (case set_pair_in_section h ctx cur (Some k) (Some v) of
              (r, ctx', h') \<Rightarrow> (r, ctx', cur, h'))"
  apply (simp only: parse_line_def t list.case)
  apply (simp only: d list.case k v Let_def)
  apply (simp add: c k)
  done

lemma parse_line_pair:
  assumes "storable_key k" and "storable_value v"
  shows "parse_line h ctx cur (k @ CHR ''='' # v) =
           (case set_pair_in_section h ctx cur (Some k) (Some v) of
              (r, ctx', h') \<Rightarrow> (r, ctx', cur, h'))"
proof -
  from assms(1) obtain c rest where k: "k = c # rest"
    by (cases k) (auto simp: storable_key_def)
  have ne: "\<not> is_space (CHR ''='')"
    by (simp add: is_space_def)
  have "\<not> is_space (last (k @ CHR ''='' # v))"
    using assms(2) ne by (cases "v = []") (auto simp: storable_value_def trimmed_def)
  moreover have "\<not> is_space (hd (k @ CHR ''='' # v))"
    using assms(1) by (simp add: storable_key_def trimmed_def k)
  ultimately have t: "trim_whitespace (k @ CHR ''='' # v) = c # (rest @ CHR ''='' # v)"
    using trim_whitespace_id [of "k @ CHR ''='' # v"] by (simp add: k)
  have eq: "CHR ''='' \<notin> set k"
    using assms(1) by (simp add: storable_key_def)
  have d: "dropWhile (\<lambda>x. x \<noteq> CHR ''='') (c # (rest @ CHR ''='' # v)) = CHR ''='' # v"
    using dropWhile_upto [OF eq, of v] by (simp add: k)
  have tk: "trim_whitespace (takeWhile (\<lambda>x. x \<noteq> CHR ''='') (c # (rest @ CHR ''='' # v))) = k"
    using takeWhile_upto [OF eq, of v] assms(1)
    by (simp add: k storable_key_def trim_whitespace_trimmed)
  have tv: "trim_whitespace v = v"
    using assms(2) by (simp add: storable_value_def trim_whitespace_trimmed)
  show ?thesis
    using assms(1) by (intro parse_line_pair_steps [OF t _ _ _ d tk _ tv]) (simp_all add: storable_key_def k)
qed

lemma parse_line_header_steps:
  assumes t: "trim_whitespace l = CHR ''['' # rest"
    and d: "dropWhile (\<lambda>x. x \<noteq> CHR '']'') rest = e # after"
    and n: "trim_whitespace (takeWhile (\<lambda>x. x \<noteq> CHR '']'') rest) = n"
  shows "parse_line h ctx cur l =
           (case get_or_create_section h ctx (Some n) of
              (None, ctx', h') \<Rightarrow> (DMINI_ERR_MEMORY, ctx', None, h')
            | (Some i, ctx', h') \<Rightarrow> (DMINI_OK, ctx', Some i, h'))"
  apply (simp only: parse_line_def t list.case)
  apply (simp only: d list.case n)
  apply simp
  done

lemma parse_line_header:
  assumes "CHR '']'' \<notin> set x"
  shows "parse_line h ctx cur (CHR ''['' # x @ [CHR '']'']) =
           (case get_or_create_section h ctx (Some (trim_whitespace x)) of
              (None, ctx', h') \<Rightarrow> (DMINI_ERR_MEMORY, ctx', None, h')
            | (Some i, ctx', h') \<Rightarrow> (DMINI_OK, ctx', Some i, h'))"
proof -
  have t: "trim_whitespace (CHR ''['' # x @ [CHR '']'']) = CHR ''['' # (x @ [CHR '']''])"
    using trim_whitespace_id [of "CHR ''['' # x @ [CHR '']'']"] by (simp add: is_space_def)
  have d: "dropWhile (\<lambda>c. c \<noteq> CHR '']'') (x @ [CHR '']'']) = [CHR '']'']"
    using dropWhile_upto [OF assms, of "[]"] by simp
  have n: "trim_whitespace (takeWhile (\<lambda>c. c \<noteq> CHR '']'') (x @ [CHR '']''])) = trim_whitespace x"
    using takeWhile_upto [OF assms, of "[]"] by simp
  show ?thesis
    by (rule parse_line_header_steps [OF t d n])
qed

lemma set_pair_in_section_others:
  "set_pair_in_section h ctx (Some i) k v = (r, ctx', h') \<Longrightarrow> n \<noteq> i \<Longrightarrow> ctx' ! n = ctx ! n"
  by (auto simp: set_pair_in_section_def split: option.splits prod.splits)

subsection \<open>A header with nothing between the brackets\<close>

lemma global_head_find:
  "global_at_head (Some ctx) \<Longrightarrow> find_section ctx None = Some 0"
  by (cases ctx) (auto simp: global_at_head_def)

lemma global_head_nth:
  assumes "global_at_head (Some ctx)" and "map sec_name ctx' = map sec_name ctx @ t"
  shows "global_at_head (Some ctx')"
  using assms by (auto simp: global_at_head_names)

lemma get_or_create_section_head:
  assumes "get_or_create_section h ctx n = (i, ctx', h')" and "ctx \<noteq> []"
  shows "ctx' ! 0 = ctx ! 0"
  using assms
  by (auto simp: get_or_create_section_def nth_append split: option.splits prod.splits)

lemma blank_char:
  "c = CHR '' '' \<or> c = CHR 0x09 \<Longrightarrow> \<not> is_eol c \<and> is_space c \<and> c \<noteq> CHR '']''"
  by (auto simp: is_eol_def is_space_def)

lemma blanks:
  assumes "list_all (\<lambda>c. c = CHR '' '' \<or> c = CHR 0x09) ws"
  shows "\<forall>c\<in>set ws. is_space c" and "CHR '']'' \<notin> set ws" and "\<forall>c\<in>set ws. \<not> is_eol c"
proof -
  have *: "\<not> is_eol c \<and> is_space c \<and> c \<noteq> CHR '']''" if "c \<in> set ws" for c
  proof (rule blank_char)
    from assms that show "c = CHR '' '' \<or> c = CHR 0x09"
      unfolding list_all_iff by (rule bspec)
  qed
  from * show "\<forall>c\<in>set ws. is_space c" by blast
  from * show "CHR '']'' \<notin> set ws" by blast
  from * show "\<forall>c\<in>set ws. \<not> is_eol c" by blast
qed

lemma header_one_line:
  assumes "\<forall>c\<in>set ws. \<not> is_eol c"
  shows "\<forall>c\<in>set (CHR ''['' # ws @ [CHR '']'']). \<not> is_eol c"
proof -
  have "\<not> is_eol (CHR ''['')" "\<not> is_eol (CHR '']'')"
    by (simp_all add: is_eol_def)
  with assms show ?thesis by simp
qed

lemma pair_one_line:
  assumes "one_line k" and "one_line v"
  shows "\<forall>c\<in>set (k @ CHR ''='' # v). \<not> is_eol c"
proof -
  have "\<not> is_eol (CHR ''='')"
    by (simp add: is_eol_def)
  with assms show ?thesis
    unfolding one_line_def list_all_iff by (simp add: ball_Un)
qed

text \<open>
  Claim C10. A header line whose brackets hold only blanks makes the section named by the
  empty string the current section. That section is a named one: in a context that
  starts with the global section it is found (or added) at a later position and
  \<open>dmini_has_section\<close> reports it under the name \<^verbatim>\<open>""\<close>. A pair on the next line is
  stored there: it is read back under the section name \<^verbatim>\<open>""\<close>, while a lookup with a
  null section name gives what it gave before the parse, and the global section is the
  same as before.
\<close>

theorem blank_header_names_empty_section:
  assumes g: "global_at_head (Some ctx)" and a: "alloc_ok h"
    and ws: "list_all (\<lambda>c. c = CHR '' '' \<or> c = CHR 0x09) ws"
    and k: "storable_key k" and v: "storable_value v"
  shows "\<exists>ctx' h' i.
           dmini_parse_string h (Some ctx)
             (Some ((CHR ''['' # ws @ [CHR '']'']) @ CHR 0x0A # (k @ CHR ''='' # v) @ [CHR 0x0A]))
             = (DMINI_OK, Some ctx', h') \<and>
           find_section ctx' (Some []) = Some i \<and> 0 < i \<and>
           dmini_has_section (Some ctx') (Some []) = 1 \<and>
           dmini_has_key (Some ctx') (Some []) (Some k) = 1 \<and>
           dmini_get_string (Some ctx') (Some []) (Some k) d = Some v \<and>
           dmini_get_string (Some ctx') None (Some k) d = dmini_get_string (Some ctx) None (Some k) d \<and>
           ctx' ! 0 = ctx ! 0"
proof -
  let ?hdr = "CHR ''['' # ws @ [CHR '']'']"
  let ?pair = "k @ CHR ''='' # v"
  have ne: "ctx \<noteq> []"
    using g by (auto simp: global_at_head_def)
  have h0: "alloc_ok (tl h)"
    using a by (rule alloc_ok_tl)
  have blank: "\<forall>c\<in>set ws. is_space c" and nb: "CHR '']'' \<notin> set ws"
    and ws_line: "\<forall>c\<in>set ws. \<not> is_eol c"
    using blanks [OF ws] by blast+
  from get_or_create_section_ok [OF h0, of ctx "Some []"]
  obtain i ctx1 h1 where goc: "get_or_create_section (tl h) ctx (Some []) = (Some i, ctx1, h1)"
    and fs1: "find_section ctx1 (Some []) = Some i" and i1: "i < length ctx1" and h1: "alloc_ok h1"
    by blast
  from get_or_create_section_names [OF goc] obtain t where
    names1: "map sec_name ctx1 = map sec_name ctx @ t"
    by blast
  have g1: "global_at_head (Some ctx1)"
    by (rule global_head_nth [OF g names1])
  have head1: "ctx1 ! 0 = ctx ! 0"
    by (rule get_or_create_section_head [OF goc ne])
  have ipos: "0 < i"
  proof (rule ccontr)
    assume "\<not> 0 < i"
    then have "i = 0" by simp
    with find_section_Some [OF fs1] have "sec_name (ctx1 ! 0) = Some []" by simp
    moreover from g1 have "sec_name (ctx1 ! 0) = None"
      by (cases ctx1) (auto simp: global_at_head_def)
    ultimately show False by simp
  qed
  have pl1: "parse_line (tl h) ctx (Some 0) ?hdr = (DMINI_OK, ctx1, Some i, h1)"
    using parse_line_header [OF nb, of "tl h" ctx "Some 0"] goc
    by (simp add: trim_whitespace_blank [OF blank])
  from set_pair_in_section_ok [OF h1 i1, of k v]
  obtain ctx2 h2 j where sp: "set_pair_in_section h1 ctx1 (Some i) (Some k) (Some v) = (DMINI_OK, ctx2, h2)"
    and fp: "find_pair (ctx2 ! i) k = Some j"
    and pj: "sec_pairs (ctx2 ! i) ! j = \<lparr>pair_key = k, pair_value = Some v\<rparr>"
    and names2: "map sec_name ctx2 = map sec_name ctx1"
    by blast
  have pl2: "parse_line h1 ctx1 (Some i) ?pair = (DMINI_OK, ctx2, Some i, h2)"
    using parse_line_pair [OF k v, of h1 ctx1 "Some i"] sp by simp
  have l1: "\<forall>c\<in>set ?hdr. \<not> is_eol c"
    by (rule header_one_line [OF ws_line])
  have l2: "\<forall>c\<in>set ?pair. \<not> is_eol c"
    using k v by (intro pair_one_line) (simp_all add: storable_key_def storable_value_def)
  have nl: "is_eol (CHR 0x0A)"
    by (simp add: is_eol_def)
  have "parse_loop (tl h) ctx (Some 0) (?hdr @ CHR 0x0A # ?pair @ [CHR 0x0A])
      = parse_loop h1 ctx1 (Some i) (?pair @ [CHR 0x0A])"
    using parse_loop_line [OF l1 nl pl1, of "?pair @ [CHR 0x0A]"] by simp
  also have "\<dots> = parse_loop h2 ctx2 (Some i) []"
    using parse_loop_line [OF l2 nl pl2, of "[]"] by simp
  finally have loop: "parse_loop (tl h) ctx (Some 0) (?hdr @ CHR 0x0A # ?pair @ [CHR 0x0A])
      = (DMINI_OK, ctx2, h2)"
    by (simp add: parse_loop_Nil)
  have parse: "dmini_parse_string h (Some ctx) (Some (?hdr @ CHR 0x0A # ?pair @ [CHR 0x0A]))
      = (DMINI_OK, Some ctx2, h2)"
    using loop ne by (simp add: dmini_parse_string_def string_duplicate_ok [OF a])
  have fs2: "find_section ctx2 (Some []) = Some i"
    using find_section_names_cong [OF names2, of "Some []"] fs1 by simp
  have g2: "global_at_head (Some ctx2)"
    using g1 names2 by (simp add: global_at_head_names)
  have head2: "ctx2 ! 0 = ctx ! 0"
    using set_pair_in_section_others [OF sp, of 0] ipos head1 by simp
  have has: "dmini_has_section (Some ctx2) (Some []) = 1"
    by (simp add: dmini_has_section_def fs2)
  have hask: "dmini_has_key (Some ctx2) (Some []) (Some k) = 1"
    by (simp add: dmini_has_key_def fs2 fp)
  have get: "dmini_get_string (Some ctx2) (Some []) (Some k) d = Some v"
    by (simp add: dmini_get_string_def fs2 fp pj)
  have glob: "dmini_get_string (Some ctx2) None (Some k) d = dmini_get_string (Some ctx) None (Some k) d"
    by (simp add: dmini_get_string_def global_head_find [OF g] global_head_find [OF g2] head2
        cong: option.case_cong)
  from parse fs2 ipos has hask get glob head2 show ?thesis
    by blast
qed

theorem blank_header_names_empty_section_witness:
  "global_at_head (Some [\<lparr>sec_name = None, sec_pairs = []\<rparr>]) \<and> alloc_ok [] \<and>
   list_all (\<lambda>c. c = CHR '' '' \<or> c = CHR 0x09) '' '' \<and> storable_key ''k'' \<and> storable_value ''v'' \<and>
   (\<exists>ctx' h' i.
      dmini_parse_string [] (Some [\<lparr>sec_name = None, sec_pairs = []\<rparr>])
        (Some ((CHR ''['' # '' '' @ [CHR '']'']) @ CHR 0x0A # (''k'' @ CHR ''='' # ''v'') @ [CHR 0x0A]))
        = (DMINI_OK, Some ctx', h') \<and>
      find_section ctx' (Some []) = Some i \<and> 0 < i \<and>
      dmini_has_section (Some ctx') (Some []) = 1 \<and>
      dmini_has_key (Some ctx') (Some []) (Some ''k'') = 1 \<and>
      dmini_get_string (Some ctx') (Some []) (Some ''k'') (Some ''dflt'') = Some ''v'' \<and>
      dmini_get_string (Some ctx') None (Some ''k'') (Some ''dflt'') = Some ''dflt'' \<and>
      ctx' ! 0 = \<lparr>sec_name = None, sec_pairs = []\<rparr>)"
proof -
  have g: "global_at_head (Some [\<lparr>sec_name = None, sec_pairs = []\<rparr>])"
    by (simp add: global_at_head_def)
  have a: "alloc_ok []"
    by (simp add: alloc_ok_def)
  have ws: "list_all (\<lambda>c. c = CHR '' '' \<or> c = CHR 0x09) '' ''"
    by simp
  have k: "storable_key ''k''"
    by (simp add: storable_key_def trimmed_def one_line_def is_space_def is_eol_def)
  have v: "storable_value ''v''"
    by (simp add: storable_value_def trimmed_def one_line_def is_space_def is_eol_def)
  have d: "dmini_get_string (Some [\<lparr>sec_name = None, sec_pairs = []\<rparr>]) None (Some ''k'') (Some ''dflt'')
      = Some ''dflt''"
    by (simp add: dmini_get_string_def find_pair_def)
  from blank_header_names_empty_section [OF g a ws k v, of "Some ''dflt''"] g a ws k v d
  show ?thesis by simp
qed

subsection \<open>Models built by the setters\<close>

lemma set_pair_in_section_result:
  assumes "alloc_ok h" and "i < length ctx"
  shows "\<exists>ps' h'. set_pair_in_section h ctx (Some i) (Some k) (Some v)
             = (DMINI_OK, ctx[i := (ctx ! i)\<lparr>sec_pairs := ps'\<rparr>], h') \<and> alloc_ok h' \<and>
           ((\<exists>j. find_pair_loop (sec_pairs (ctx ! i)) k = Some j \<and>
                 ps' = (sec_pairs (ctx ! i))[j := \<lparr>pair_key = k, pair_value = Some v\<rparr>]) \<or>
            (find_pair_loop (sec_pairs (ctx ! i)) k = None \<and>
                 ps' = sec_pairs (ctx ! i) @ [\<lparr>pair_key = k, pair_value = Some v\<rparr>]))"
proof (cases "find_pair (ctx ! i) k")
  case None
  then show ?thesis
    using assms(1)
    by (simp add: set_pair_in_section_def create_pair_ok find_pair_def alloc_ok_tl)
next
  case (Some j)
  have ok: "fst (Dmod_Malloc h)" "alloc_ok (snd (Dmod_Malloc h))"
    using assms(1) by (simp_all add: Dmod_Malloc_ok alloc_ok_tl)
  from set_pair_existing [OF Some ok(1), of v] ok(2) Some show ?thesis
    by (auto simp: find_pair_def)
qed

lemma wf_pairs_set:
  assumes "wf_pairs ps" and "storable_key k" and "storable_value v"
  shows "find_pair_loop ps k = Some j \<Longrightarrow> wf_pairs (ps[j := \<lparr>pair_key = k, pair_value = Some v\<rparr>])"
    and "find_pair_loop ps k = None \<Longrightarrow> wf_pairs (ps @ [\<lparr>pair_key = k, pair_value = Some v\<rparr>])"
proof -
  have new: "wf_pair \<lparr>pair_key = k, pair_value = Some v\<rparr>"
    using assms(2,3) by (simp add: wf_pair_def)
  {
    assume f: "find_pair_loop ps k = Some j"
    from find_pair_loop_Some [OF f] have j: "j < length ps" "pair_key (ps ! j) = k" by simp_all
    have "map pair_key (ps[j := \<lparr>pair_key = k, pair_value = Some v\<rparr>]) = map pair_key ps"
      using j by (intro nth_equalityI) (auto simp: nth_list_update)
    moreover have "list_all wf_pair (ps[j := \<lparr>pair_key = k, pair_value = Some v\<rparr>])"
      using assms(1) new set_update_subset_insert [of ps j "\<lparr>pair_key = k, pair_value = Some v\<rparr>"]
      by (auto simp: wf_pairs_def list_all_iff)
    ultimately show "wf_pairs (ps[j := \<lparr>pair_key = k, pair_value = Some v\<rparr>])"
      using assms(1) by (simp add: wf_pairs_def)
  }
  {
    assume "find_pair_loop ps k = None"
    then have "k \<notin> pair_key ` set ps"
      by (simp add: find_pair_loop_None_iff)
    then show "wf_pairs (ps @ [\<lparr>pair_key = k, pair_value = Some v\<rparr>])"
      using assms(1) new by (simp add: wf_pairs_def)
  }
qed

lemma wf_model_update_pairs:
  assumes "wf_model m" and "wf_pairs ps"
  shows "wf_model (m[i := (m ! i)\<lparr>sec_pairs := ps\<rparr>])"
proof -
  have "list_all (\<lambda>s. wf_pairs (sec_pairs s)) (m[i := (m ! i)\<lparr>sec_pairs := ps\<rparr>])"
    using assms set_update_subset_insert [of m i "(m ! i)\<lparr>sec_pairs := ps\<rparr>"]
    by (auto simp: wf_model_def list_all_iff)
  with assms(1) show ?thesis
    by (simp add: wf_model_def update_pairs_names)
qed

lemma wf_model_new_section:
  assumes "wf_model m" and "find_section m n = None"
    and "case n of None \<Rightarrow> True | Some s \<Rightarrow> storable_name s"
  shows "wf_model (m @ [\<lparr>sec_name = n, sec_pairs = []\<rparr>])"
  using assms
  by (auto simp: wf_model_def wf_names_def wf_pairs_def find_section_None_iff)

lemma set_string_wf:
  assumes "alloc_ok h" and "wf_model m"
    and "case section of None \<Rightarrow> True | Some s \<Rightarrow> storable_name s"
    and "storable_key k" and "storable_value v"
  shows "\<exists>m' h'. dmini_set_string h (Some m) section (Some k) (Some v) = (DMINI_OK, Some m', h') \<and>
           wf_model m' \<and> alloc_ok h'"
proof -
  from get_or_create_section_ok [OF assms(1), of m "section"]
  obtain i m1 h1 where goc: "get_or_create_section h m section = (Some i, m1, h1)"
    and i: "i < length m1" and h1: "alloc_ok h1"
    and shape: "find_section m section = Some i \<and> m1 = m \<and> h1 = h \<or>
       find_section m section = None \<and> m1 = m @ [\<lparr>sec_name = section, sec_pairs = []\<rparr>] \<and> i = length m"
    by blast
  from shape have wf1: "wf_model m1"
  proof
    assume "find_section m section = Some i \<and> m1 = m \<and> h1 = h"
    with assms(2) show ?thesis by simp
  next
    assume "find_section m section = None \<and> m1 = m @ [\<lparr>sec_name = section, sec_pairs = []\<rparr>] \<and> i = length m"
    with wf_model_new_section [OF assms(2) _ assms(3)] show ?thesis by simp
  qed
  from set_pair_in_section_result [OF h1 i, of k v]
  obtain ps' h2 where sp: "set_pair_in_section h1 m1 (Some i) (Some k) (Some v)
        = (DMINI_OK, m1[i := (m1 ! i)\<lparr>sec_pairs := ps'\<rparr>], h2)" and h2: "alloc_ok h2"
    and ps': "(\<exists>j. find_pair_loop (sec_pairs (m1 ! i)) k = Some j \<and>
                 ps' = (sec_pairs (m1 ! i))[j := \<lparr>pair_key = k, pair_value = Some v\<rparr>]) \<or>
            (find_pair_loop (sec_pairs (m1 ! i)) k = None \<and>
                 ps' = sec_pairs (m1 ! i) @ [\<lparr>pair_key = k, pair_value = Some v\<rparr>])"
    by blast
  have wfp: "wf_pairs (sec_pairs (m1 ! i))"
    using wf1 i by (simp add: wf_model_def list_all_length)
  from ps' have "wf_pairs ps'"
  proof
    assume "\<exists>j. find_pair_loop (sec_pairs (m1 ! i)) k = Some j \<and>
                 ps' = (sec_pairs (m1 ! i))[j := \<lparr>pair_key = k, pair_value = Some v\<rparr>]"
    then obtain j where "find_pair_loop (sec_pairs (m1 ! i)) k = Some j"
      and "ps' = (sec_pairs (m1 ! i))[j := \<lparr>pair_key = k, pair_value = Some v\<rparr>]"
      by blast
    with wf_pairs_set(1) [OF wfp assms(4,5)] show ?thesis by simp
  next
    assume "find_pair_loop (sec_pairs (m1 ! i)) k = None \<and>
                 ps' = sec_pairs (m1 ! i) @ [\<lparr>pair_key = k, pair_value = Some v\<rparr>]"
    with wf_pairs_set(2) [OF wfp assms(4,5)] show ?thesis by simp
  qed
  from wf_model_update_pairs [OF wf1 this, of i] have "wf_model (m1[i := (m1 ! i)\<lparr>sec_pairs := ps'\<rparr>])" .
  moreover have "dmini_set_string h (Some m) section (Some k) (Some v)
      = (DMINI_OK, Some (m1[i := (m1 ! i)\<lparr>sec_pairs := ps'\<rparr>]), h2)"
    by (simp add: dmini_set_string_def goc sp)
  ultimately show ?thesis using h2 by blast
qed

lemma smod_10_range: "- 9 \<le> (v::int) smod 10 \<and> v smod 10 \<le> 9"
proof -
  have "0 \<le> \<bar>v\<bar> mod 10" "\<bar>v\<bar> mod 10 \<le> 9"
    by simp_all
  then show ?thesis
    by (cases "v < 0"; cases "v = 0") (simp_all add: signed_modulo_int_def sgn_if)
qed

lemma digit_char_plain:
  assumes "- 9 \<le> (r::int)" and "r \<le> 9"
  shows "\<not> is_space (char_of (48 + r)) \<and> \<not> is_eol (char_of (48 + r))"
proof -
  have "of_char (char_of (48 + r)) = (48 + r) mod 256"
    by simp
  also have "\<dots> = 48 + r"
    using assms by simp
  finally have v: "(of_char (char_of (48 + r)) :: int) = 48 + r" .
  have "(of_char c :: int) \<in> {32, 9, 13, 10}" if "is_space c \<or> is_eol c" for c
    using that by (auto simp: is_space_def is_eol_def)
  from this [of "char_of (48 + r)"] v assms show ?thesis
    by auto
qed

lemma int_digits_plain:
  "list_all (\<lambda>c. \<not> is_space c \<and> \<not> is_eol c) p \<Longrightarrow>
     list_all (\<lambda>c. \<not> is_space c \<and> \<not> is_eol c) (int_digits v p) \<and> int_digits v p \<noteq> []"
proof (induction v p rule: int_digits.induct)
  case (1 v p)
  have d: "\<not> is_space (char_of (48 + v smod 10)) \<and> \<not> is_eol (char_of (48 + v smod 10))"
    using digit_char_plain smod_10_range by blast
  show ?case
  proof (cases "v sdiv 10 > 0")
    case True
    have "list_all (\<lambda>c. \<not> is_space c \<and> \<not> is_eol c) (char_of (48 + v smod 10) # p)"
      using d "1.prems" by simp
    from "1.IH" [OF True this] True show ?thesis
      by (subst (1 2) int_digits.simps) simp
  next
    case False
    with d "1.prems" show ?thesis
      by (subst (1 2) int_digits.simps) simp
  qed
qed

lemma plain_storable_value:
  assumes "list_all (\<lambda>c. \<not> is_space c \<and> \<not> is_eol c) s"
  shows "storable_value s"
proof (cases "s = []")
  case True
  then show ?thesis by (simp add: storable_value_def trimmed_def one_line_def)
next
  case False
  then have "hd s \<in> set s" "last s \<in> set s" by simp_all
  with assms show ?thesis
    by (auto simp: storable_value_def trimmed_def one_line_def list_all_iff)
qed

lemma set_int_value_storable:
  "storable_value (int_digits v [])" "storable_value (CHR ''-'' # int_digits v [])"
proof -
  have p: "list_all (\<lambda>c. \<not> is_space c \<and> \<not> is_eol c) (int_digits v [])"
    using int_digits_plain [of "[]" v] by simp
  then show "storable_value (int_digits v [])"
    by (rule plain_storable_value)
  have "\<not> is_space (CHR ''-'') \<and> \<not> is_eol (CHR ''-'')"
    by (simp add: is_space_def is_eol_def)
  with p have "list_all (\<lambda>c. \<not> is_space c \<and> \<not> is_eol c) (CHR ''-'' # int_digits v [])"
    by simp
  then show "storable_value (CHR ''-'' # int_digits v [])"
    by (rule plain_storable_value)
qed

lemma apply_storable_operation_wf:
  assumes "alloc_ok h" and "wf_model m" and "storable_operation x"
  shows "\<exists>m' h'. apply_operation h (Some m) x = (DMINI_OK, Some m', h') \<and> wf_model m' \<and> alloc_ok h'"
proof (cases x)
  case (SetString sec k v)
  with assms(3) obtain ks vs where kv: "k = Some ks" "v = Some vs"
    by (cases k; cases v) auto
  with assms(3) SetString have "case sec of None \<Rightarrow> True | Some s \<Rightarrow> storable_name s"
    and "storable_key ks" and "storable_value vs"
    by simp_all
  from set_string_wf [OF assms(1,2) this] SetString kv show ?thesis by simp
next
  case (SetInt sec k n)
  with assms(3) obtain ks where k: "k = Some ks"
    by (cases k) auto
  with assms(3) SetInt have a: "case sec of None \<Rightarrow> True | Some s \<Rightarrow> storable_name s"
    and b: "storable_key ks"
    by simp_all
  show ?thesis
  proof (cases "sint n < 0")
    case True
    from set_string_wf [OF assms(1,2) a b set_int_value_storable(2)] True SetInt k show ?thesis
      by (simp add: dmini_set_int_def)
  next
    case False
    from set_string_wf [OF assms(1,2) a b set_int_value_storable(1)] False SetInt k show ?thesis
      by (simp add: dmini_set_int_def)
  qed
next
  case (ParseString d)
  with assms(3) show ?thesis by simp
next
  case (RemoveSection s)
  with assms(3) show ?thesis by simp
next
  case (RemoveKey s k)
  with assms(3) show ?thesis by simp
qed

lemma run_storable_operations_wf:
  "alloc_ok h \<Longrightarrow> wf_model m \<Longrightarrow> list_all storable_operation xs \<Longrightarrow>
     \<exists>m' h'. run_operations h (Some m) xs = (Some m', h') \<and> wf_model m' \<and> alloc_ok h'"
proof (induction xs arbitrary: h m)
  case Nil
  then show ?case by simp
next
  case (Cons x xs)
  from Cons.prems(3) have x: "storable_operation x" and xs: "list_all storable_operation xs"
    by simp_all
  from apply_storable_operation_wf [OF Cons.prems(1,2) x]
  obtain m1 h1 where a: "apply_operation h (Some m) x = (DMINI_OK, Some m1, h1)"
    and "wf_model m1" and "alloc_ok h1"
    by blast
  from Cons.IH [OF this(3,2) xs] a show ?case by simp
qed

lemma wf_fresh_context: "wf_model fresh_context"
  by (simp add: fresh_context_def wf_model_def wf_names_def wf_pairs_def)

lemma dmini_create_ok: "alloc_ok h \<Longrightarrow> dmini_create h = (Some fresh_context, tl (tl h))"
  by (simp add: dmini_create_def Dmod_Malloc_ok create_section_ok alloc_ok_tl fresh_context_def)

subsection \<open>Parsing the generated text\<close>

lemma render_global:
  "sec_name g = None \<Longrightarrow> render (g # ss) = concat (map pair_line (sec_pairs g)) @ render ss"
  by (cases ss) (simp_all add: section_lines_def)

lemma render_named:
  "sec_name s = Some n \<Longrightarrow>
     render (s # ss) =
       (CHR ''['' # n @ [CHR '']'']) @ CHR 0x0A #
         (concat (map pair_line (sec_pairs s)) @ (if ss = [] then [] else CHR 0x0A # render ss))"
  by (cases ss) (simp_all add: section_lines_def)

lemma pair_line_split:
  "pair_value p = Some v \<Longrightarrow> pair_line p = (pair_key p @ CHR ''='' # v) @ [CHR 0x0A]"
  by (simp add: pair_line_def)

lemma set_pair_new:
  assumes "alloc_ok h" and "find_pair_loop (sec_pairs (ctx ! i)) (pair_key p) = None"
    and "pair_value p = Some v"
  shows "set_pair_in_section h ctx (Some i) (Some (pair_key p)) (Some v)
       = (DMINI_OK, ctx[i := (ctx ! i)\<lparr>sec_pairs := sec_pairs (ctx ! i) @ [p]\<rparr>], tl (tl (tl h)))"
proof -
  have "\<lparr>pair_key = pair_key p, pair_value = Some v\<rparr> = p"
    using assms(3) by (cases p) simp
  then show ?thesis
    using assms(1,2) by (simp add: set_pair_in_section_def find_pair_def create_pair_ok)
qed

text \<open>The lines of the pairs \<open>ps\<close> append \<open>ps\<close> to the current section.\<close>

lemma parse_pair_lines:
  "alloc_ok h \<Longrightarrow> i < length ctx \<Longrightarrow> wf_pairs (sec_pairs (ctx ! i) @ ps) \<Longrightarrow>
     \<exists>h'. alloc_ok h' \<and>
       parse_loop h ctx (Some i) (concat (map pair_line ps) @ buf)
         = parse_loop h' (ctx[i := (ctx ! i)\<lparr>sec_pairs := sec_pairs (ctx ! i) @ ps\<rparr>]) (Some i) buf"
proof (induction ps arbitrary: h ctx)
  case Nil
  have "ctx[i := (ctx ! i)\<lparr>sec_pairs := sec_pairs (ctx ! i) @ []\<rparr>] = ctx"
    by simp
  with Nil.prems(1) show ?case by auto
next
  case (Cons p ps)
  let ?qs = "sec_pairs (ctx ! i)"
  from Cons.prems(3) have wp: "wf_pair p" and fresh: "pair_key p \<notin> pair_key ` set ?qs"
    by (auto simp: wf_pairs_def)
  then obtain v where v: "pair_value p = Some v" and sv: "storable_value v"
    and sk: "storable_key (pair_key p)"
    by (cases "pair_value p") (auto simp: wf_pair_def)
  let ?l = "pair_key p @ CHR ''='' # v"
  let ?ctx1 = "ctx[i := (ctx ! i)\<lparr>sec_pairs := ?qs @ [p]\<rparr>]"
  let ?h1 = "tl (tl (tl h))"
  have h1: "alloc_ok ?h1"
    using Cons.prems(1) by (simp add: alloc_ok_tl)
  have np: "find_pair_loop ?qs (pair_key p) = None"
    using fresh by (simp add: find_pair_loop_None_iff)
  have pl: "parse_line h ctx (Some i) ?l = (DMINI_OK, ?ctx1, Some i, ?h1)"
    using parse_line_pair [OF sk sv, of h ctx "Some i"] set_pair_new [OF Cons.prems(1) np v]
    by simp
  have one: "\<forall>c\<in>set ?l. \<not> is_eol c"
    using sk sv by (intro pair_one_line) (simp_all add: storable_key_def storable_value_def)
  have nl: "is_eol (CHR 0x0A)"
    by (simp add: is_eol_def)
  have cut: "concat (map pair_line (p # ps)) @ buf = ?l @ CHR 0x0A # (concat (map pair_line ps) @ buf)"
    by (simp add: pair_line_split [OF v])
  have step: "parse_loop h ctx (Some i) (concat (map pair_line (p # ps)) @ buf)
      = parse_loop ?h1 ?ctx1 (Some i) (concat (map pair_line ps) @ buf)"
    unfolding cut using parse_loop_line [OF one nl pl] by simp
  have i1: "i < length ?ctx1"
    using Cons.prems(2) by simp
  have q1: "sec_pairs (?ctx1 ! i) = ?qs @ [p]"
    using Cons.prems(2) by simp
  have wf1: "wf_pairs (sec_pairs (?ctx1 ! i) @ ps)"
    using Cons.prems(3) by (simp add: q1)
  from Cons.IH [OF h1 i1 wf1] obtain h' where h': "alloc_ok h'"
    and rest: "parse_loop ?h1 ?ctx1 (Some i) (concat (map pair_line ps) @ buf)
      = parse_loop h' (?ctx1[i := (?ctx1 ! i)\<lparr>sec_pairs := sec_pairs (?ctx1 ! i) @ ps\<rparr>]) (Some i) buf"
    by blast
  have "?ctx1[i := (?ctx1 ! i)\<lparr>sec_pairs := sec_pairs (?ctx1 ! i) @ ps\<rparr>]
      = ctx[i := (ctx ! i)\<lparr>sec_pairs := ?qs @ p # ps\<rparr>]"
    using Cons.prems(2) by simp
  with step rest h' show ?case by auto
qed

lemma wf_model_named:
  assumes "wf_model (ctx @ s # ss)" and "ctx \<noteq> []"
  shows "\<exists>n. sec_name s = Some n \<and> storable_name n \<and> find_section ctx (Some n) = None"
    and "wf_pairs (sec_pairs s)"
proof -
  from assms(1) have names: "wf_names (map sec_name ctx @ sec_name s # map sec_name ss)"
    and pairs: "list_all (\<lambda>s. wf_pairs (sec_pairs s)) (ctx @ s # ss)"
    by (simp_all add: wf_model_def)
  from pairs show "wf_pairs (sec_pairs s)" by simp
  from assms(2) obtain g rest where ctx: "ctx = g # rest" by (cases ctx) auto
  from names ctx have gn: "sec_name g = None"
    by (simp add: wf_names_def)
  from names have "distinct (map sec_name ctx @ sec_name s # map sec_name ss)"
    by (simp add: wf_names_def)
  then have new: "sec_name s \<notin> set (map sec_name ctx)"
    by auto
  from names have "list_all (\<lambda>n. case n of None \<Rightarrow> True | Some s \<Rightarrow> storable_name s)
      (map sec_name ctx @ sec_name s # map sec_name ss)"
    by (simp add: wf_names_def)
  then have st: "case sec_name s of None \<Rightarrow> True | Some n \<Rightarrow> storable_name n"
    by simp
  have "None \<in> set (map sec_name ctx)"
    using ctx gn by force
  with new obtain n where n: "sec_name s = Some n"
    by (cases "sec_name s") auto
  from new n have "find_section ctx (Some n) = None"
    by (simp add: find_section_None_iff)
  with n st show "\<exists>n. sec_name s = Some n \<and> storable_name n \<and> find_section ctx (Some n) = None"
    by simp
qed

text \<open>The text of named sections appends them to the context.\<close>

lemma parse_named_sections:
  "alloc_ok h \<Longrightarrow> wf_model (ctx @ s # ss) \<Longrightarrow> ctx \<noteq> [] \<Longrightarrow>
     \<exists>h'. alloc_ok h' \<and> parse_loop h ctx cur (render (s # ss)) = (DMINI_OK, ctx @ s # ss, h')"
proof (induction ss arbitrary: h ctx cur s)
  case Nil
  from wf_model_named [OF Nil.prems(2,3)] obtain n where n: "sec_name s = Some n"
    and sn: "storable_name n" and nf: "find_section ctx (Some n) = None"
    and wp: "wf_pairs (sec_pairs s)"
    by blast
  let ?ctx1 = "ctx @ [\<lparr>sec_name = Some n, sec_pairs = []\<rparr>]"
  let ?h1 = "tl (tl h)"
  have h1: "alloc_ok ?h1"
    using Nil.prems(1) by (simp add: alloc_ok_tl)
  have goc: "get_or_create_section h ctx (Some n) = (Some (length ctx), ?ctx1, ?h1)"
    using Nil.prems(1) nf by (simp add: get_or_create_section_def create_section_ok)
  have nb: "CHR '']'' \<notin> set n" and tn: "trim_whitespace n = n" and on: "\<forall>c\<in>set n. \<not> is_eol c"
    using sn by (simp_all add: storable_name_def trim_whitespace_trimmed one_line_def list_all_iff)
  have pl: "parse_line h ctx cur (CHR ''['' # n @ [CHR '']'']) = (DMINI_OK, ?ctx1, Some (length ctx), ?h1)"
    using parse_line_header [OF nb, of h ctx cur] goc tn by simp
  have nl: "is_eol (CHR 0x0A)"
    by (simp add: is_eol_def)
  have step1: "parse_loop h ctx cur (render [s])
      = parse_loop ?h1 ?ctx1 (Some (length ctx)) (concat (map pair_line (sec_pairs s)) @ [])"
    unfolding render_named [OF n]
    using parse_loop_line [OF header_one_line [OF on] nl pl] by simp
  have i1: "length ctx < length ?ctx1" by simp
  have wf1: "wf_pairs (sec_pairs (?ctx1 ! length ctx) @ sec_pairs s)"
    using wp by simp
  from parse_pair_lines [OF h1 i1 wf1, of "[]"] obtain h' where h': "alloc_ok h'"
    and step2: "parse_loop ?h1 ?ctx1 (Some (length ctx)) (concat (map pair_line (sec_pairs s)) @ [])
      = parse_loop h' (?ctx1[length ctx := (?ctx1 ! length ctx)\<lparr>sec_pairs :=
            sec_pairs (?ctx1 ! length ctx) @ sec_pairs s\<rparr>]) (Some (length ctx)) []"
    by blast
  have "\<lparr>sec_name = Some n, sec_pairs = sec_pairs s\<rparr> = s"
    using n by (cases s) simp
  then have "?ctx1[length ctx := (?ctx1 ! length ctx)\<lparr>sec_pairs :=
            sec_pairs (?ctx1 ! length ctx) @ sec_pairs s\<rparr>] = ctx @ [s]"
    by simp
  with step1 step2 h' show ?case
    by (auto simp: parse_loop_Nil)
next
  case (Cons t ss)
  have wfm: "wf_model (ctx @ s # t # ss)"
    using Cons.prems(2) .
  from wf_model_named [OF wfm Cons.prems(3)] obtain n where n: "sec_name s = Some n"
    and sn: "storable_name n" and nf: "find_section ctx (Some n) = None"
    and wp: "wf_pairs (sec_pairs s)"
    by blast
  let ?ctx1 = "ctx @ [\<lparr>sec_name = Some n, sec_pairs = []\<rparr>]"
  let ?h1 = "tl (tl h)"
  let ?buf = "CHR 0x0A # render (t # ss)"
  have h1: "alloc_ok ?h1"
    using Cons.prems(1) by (simp add: alloc_ok_tl)
  have goc: "get_or_create_section h ctx (Some n) = (Some (length ctx), ?ctx1, ?h1)"
    using Cons.prems(1) nf by (simp add: get_or_create_section_def create_section_ok)
  have nb: "CHR '']'' \<notin> set n" and tn: "trim_whitespace n = n" and on: "\<forall>c\<in>set n. \<not> is_eol c"
    using sn by (simp_all add: storable_name_def trim_whitespace_trimmed one_line_def list_all_iff)
  have pl: "parse_line h ctx cur (CHR ''['' # n @ [CHR '']'']) = (DMINI_OK, ?ctx1, Some (length ctx), ?h1)"
    using parse_line_header [OF nb, of h ctx cur] goc tn by simp
  have nl: "is_eol (CHR 0x0A)"
    by (simp add: is_eol_def)
  have step1: "parse_loop h ctx cur (render (s # t # ss))
      = parse_loop ?h1 ?ctx1 (Some (length ctx)) (concat (map pair_line (sec_pairs s)) @ ?buf)"
    unfolding render_named [OF n]
    using parse_loop_line [OF header_one_line [OF on] nl pl] by simp
  have i1: "length ctx < length ?ctx1" by simp
  have wf1: "wf_pairs (sec_pairs (?ctx1 ! length ctx) @ sec_pairs s)"
    using wp by simp
  from parse_pair_lines [OF h1 i1 wf1, of ?buf] obtain h2 where h2: "alloc_ok h2"
    and step2: "parse_loop ?h1 ?ctx1 (Some (length ctx)) (concat (map pair_line (sec_pairs s)) @ ?buf)
      = parse_loop h2 (?ctx1[length ctx := (?ctx1 ! length ctx)\<lparr>sec_pairs :=
            sec_pairs (?ctx1 ! length ctx) @ sec_pairs s\<rparr>]) (Some (length ctx)) ?buf"
    by blast
  have "\<lparr>sec_name = Some n, sec_pairs = sec_pairs s\<rparr> = s"
    using n by (cases s) simp
  then have ctx2: "?ctx1[length ctx := (?ctx1 ! length ctx)\<lparr>sec_pairs :=
            sec_pairs (?ctx1 ! length ctx) @ sec_pairs s\<rparr>] = ctx @ [s]"
    by simp
  have step3: "parse_loop h2 (ctx @ [s]) (Some (length ctx)) ?buf
      = parse_loop h2 (ctx @ [s]) (Some (length ctx)) (render (t # ss))"
    by (rule parse_loop_skip_eol [OF nl])
  have wf2: "wf_model ((ctx @ [s]) @ t # ss)"
    using wfm by simp
  from Cons.IH [OF h2 wf2, of "Some (length ctx)"] obtain h' where h': "alloc_ok h'"
    and step4: "parse_loop h2 (ctx @ [s]) (Some (length ctx)) (render (t # ss))
      = (DMINI_OK, (ctx @ [s]) @ t # ss, h')"
    by auto
  from step1 step2 ctx2 step3 step4 h' show ?case
    by auto
qed

lemma parse_render:
  assumes "alloc_ok h" and "wf_model m"
  shows "\<exists>h'. alloc_ok h' \<and> parse_loop h fresh_context (Some 0) (render m) = (DMINI_OK, m, h')"
proof -
  from assms(2) obtain g named where m: "m = g # named"
    by (cases m) (auto simp: wf_model_def wf_names_def)
  from assms(2) m have g: "sec_name g = None" and wp: "wf_pairs (sec_pairs g)"
    by (simp_all add: wf_model_def wf_names_def)
  have i0: "0 < length fresh_context"
    by (simp add: fresh_context_def)
  have wf0: "wf_pairs (sec_pairs (fresh_context ! 0) @ sec_pairs g)"
    using wp by (simp add: fresh_context_def)
  from parse_pair_lines [OF assms(1) i0 wf0, of "render named"] obtain h1 where h1: "alloc_ok h1"
    and step1: "parse_loop h fresh_context (Some 0) (concat (map pair_line (sec_pairs g)) @ render named)
      = parse_loop h1 (fresh_context[0 := (fresh_context ! 0)\<lparr>sec_pairs :=
            sec_pairs (fresh_context ! 0) @ sec_pairs g\<rparr>]) (Some 0) (render named)"
    by blast
  have "\<lparr>sec_name = None, sec_pairs = sec_pairs g\<rparr> = g"
    using g by (cases g) simp
  then have c1: "fresh_context[0 := (fresh_context ! 0)\<lparr>sec_pairs :=
            sec_pairs (fresh_context ! 0) @ sec_pairs g\<rparr>] = [g]"
    by (simp add: fresh_context_def)
  have rm: "render m = concat (map pair_line (sec_pairs g)) @ render named"
    unfolding m by (rule render_global [OF g])
  show ?thesis
  proof (cases named)
    case Nil
    have "parse_loop h fresh_context (Some 0) (render m) = (DMINI_OK, m, h1)"
      unfolding rm step1 c1 by (simp add: Nil m parse_loop_Nil)
    with h1 show ?thesis by blast
  next
    case (Cons s ss)
    have "wf_model ([g] @ s # ss)"
      using assms(2) m Cons by simp
    from parse_named_sections [OF h1 this, of "Some 0"] obtain h' where h': "alloc_ok h'"
      and "parse_loop h1 [g] (Some 0) (render (s # ss)) = (DMINI_OK, [g] @ s # ss, h')"
      by auto
    then have "parse_loop h fresh_context (Some 0) (render m) = (DMINI_OK, m, h')"
      unfolding rm step1 c1 by (simp add: Cons m)
    with h' show ?thesis by blast
  qed
qed

lemma wf_model_values_present: "wf_model m \<Longrightarrow> values_present m"
  by (auto simp: wf_model_def wf_pairs_def wf_pair_def values_present_def list_all_iff
      split: option.splits)

subsection \<open>Round trip\<close>

text \<open>
  Claim C1 as the specification states it does not hold. A key may hold \<^verbatim>\<open>=\<close>: the
  claim restricts only values there. The key \<^verbatim>\<open>a=b\<close> with value \<^verbatim>\<open>c\<close>, set on a
  fresh context, is written as the line \<^verbatim>\<open>a=b=c\<close>, which parses to the key \<^verbatim>\<open>a\<close>
  with value \<^verbatim>\<open>b=c\<close>.
\<close>

theorem round_trip_counterexample:
  "trimmed ''a=b'' \<and> one_line ''a=b'' \<and> trimmed ''c'' \<and> one_line ''c'' \<and> CHR ''='' \<notin> set ''c'' \<and>
   run_operations [] (Some fresh_context) [SetString None (Some ''a=b'') (Some ''c'')]
     = (Some [\<lparr>sec_name = None, sec_pairs = [\<lparr>pair_key = ''a=b'', pair_value = Some ''c''\<rparr>]\<rparr>], []) \<and>
   dmini_generate_string []
       (Some [\<lparr>sec_name = None, sec_pairs = [\<lparr>pair_key = ''a=b'', pair_value = Some ''c''\<rparr>]\<rparr>])
     = (GenBuffer (''a=b=c'' @ [CHR 0x0A]), []) \<and>
   dmini_parse_string [] (Some fresh_context) (Some (''a=b=c'' @ [CHR 0x0A]))
     = (DMINI_OK,
        Some [\<lparr>sec_name = None, sec_pairs = [\<lparr>pair_key = ''a'', pair_value = Some ''b=c''\<rparr>]\<rparr>], []) \<and>
   [\<lparr>sec_name = None, sec_pairs = [\<lparr>pair_key = ''a'', pair_value = Some ''b=c''\<rparr>]\<rparr>]
     \<noteq> [\<lparr>sec_name = None, sec_pairs = [\<lparr>pair_key = ''a=b'', pair_value = Some ''c''\<rparr>]\<rparr>]"
proof -
  have a: "trimmed ''a=b'' \<and> one_line ''a=b'' \<and> trimmed ''c'' \<and> one_line ''c'' \<and> CHR ''='' \<notin> set ''c''"
    by (simp add: trimmed_def one_line_def is_space_def is_eol_def)
  have b: "run_operations [] (Some fresh_context) [SetString None (Some ''a=b'') (Some ''c'')]
     = (Some [\<lparr>sec_name = None, sec_pairs = [\<lparr>pair_key = ''a=b'', pair_value = Some ''c''\<rparr>]\<rparr>], [])"
    by (simp add: fresh_context_def dmini_set_string_def get_or_create_section_def
        set_pair_in_section_def find_pair_def create_pair_def string_duplicate_def Dmod_Malloc_def)
  have c: "dmini_generate_string []
       (Some [\<lparr>sec_name = None, sec_pairs = [\<lparr>pair_key = ''a=b'', pair_value = Some ''c''\<rparr>]\<rparr>])
     = (GenBuffer (''a=b=c'' @ [CHR 0x0A]), [])"
    by (simp add: dmini_generate_string_def Dmod_Malloc_def)
  have l: "parse_line [] fresh_context (Some 0) ''a=b=c''
     = (DMINI_OK, [\<lparr>sec_name = None, sec_pairs = [\<lparr>pair_key = ''a'', pair_value = Some ''b=c''\<rparr>]\<rparr>],
        Some 0, [])"
    by (simp add: parse_line_def trim_whitespace_def is_space_def fresh_context_def
        set_pair_in_section_def find_pair_def create_pair_def string_duplicate_def Dmod_Malloc_def)
  have one: "\<forall>c\<in>set ''a=b=c''. \<not> is_eol c"
    by (simp add: is_eol_def)
  have nl: "is_eol (CHR 0x0A)"
    by (simp add: is_eol_def)
  have "parse_loop [] fresh_context (Some 0) (''a=b=c'' @ CHR 0x0A # [])
     = (DMINI_OK, [\<lparr>sec_name = None, sec_pairs = [\<lparr>pair_key = ''a'', pair_value = Some ''b=c''\<rparr>]\<rparr>], [])"
    unfolding parse_loop_line [OF one nl l] by (simp add: parse_loop_Nil)
  then have d: "dmini_parse_string [] (Some fresh_context) (Some (''a=b=c'' @ [CHR 0x0A]))
     = (DMINI_OK,
        Some [\<lparr>sec_name = None, sec_pairs = [\<lparr>pair_key = ''a'', pair_value = Some ''b=c''\<rparr>]\<rparr>], [])"
    by (simp add: dmini_parse_string_def string_duplicate_def Dmod_Malloc_def fresh_context_def)
  have e: "[\<lparr>sec_name = None, sec_pairs = [\<lparr>pair_key = ''a'', pair_value = Some ''b=c''\<rparr>]\<rparr>]
     \<noteq> [\<lparr>sec_name = None, sec_pairs = [\<lparr>pair_key = ''a=b'', pair_value = Some ''c''\<rparr>]\<rparr>]"
    by simp
  from a b c d e show ?thesis by blast
qed

text \<open>
  Claim C1, amended. Take a context from \<open>dmini_create\<close> and fill it by calls of
  \<open>dmini_set_string\<close> and \<open>dmini_set_int\<close> in which every key is non-empty, has no
  \<^verbatim>\<open>=\<close>, no line terminator and no blank at either end and does not begin with
  \<^verbatim>\<open>;\<close>, \<^verbatim>\<open>#\<close> or \<^verbatim>\<open>[\<close>; every section name is null or has no \<^verbatim>\<open>]\<close>, no line
  terminator and no blank at either end; and every string value has no line terminator
  and no blank at either end (it may hold \<^verbatim>\<open>=\<close>). With memory available, the text
  \<open>dmini_generate_string\<close> returns for the resulting model, parsed into a new context
  from \<open>dmini_create\<close>, gives \<open>DMINI_OK\<close> and a context equal to the model: the same
  sections in the same order, each with the same keys in the same order and the same
  values.
\<close>

theorem round_trip_storable:
  assumes "alloc_ok h" and "list_all storable_operation xs"
  shows "\<exists>h0 m h1 h2 h3 h4.
           dmini_create h = (Some fresh_context, h0) \<and>
           run_operations h0 (Some fresh_context) xs = (Some m, h1) \<and>
           dmini_generate_string h1 (Some m) = (GenBuffer (render m), h2) \<and>
           dmini_create h2 = (Some fresh_context, h3) \<and>
           dmini_parse_string h3 (Some fresh_context) (Some (render m)) = (DMINI_OK, Some m, h4)"
proof -
  let ?h0 = "tl (tl h)"
  have h0: "alloc_ok ?h0"
    using assms(1) by (simp add: alloc_ok_tl)
  from run_storable_operations_wf [OF h0 wf_fresh_context assms(2)]
  obtain m h1 where run: "run_operations ?h0 (Some fresh_context) xs = (Some m, h1)"
    and wf: "wf_model m" and h1: "alloc_ok h1"
    by blast
  have vp: "values_present m"
    using wf by (rule wf_model_values_present)
  have w: "write_sections m [] = Some (render m)"
    using write_sections_render [OF vp, of "[]"] by simp
  have sz: "size_sections m 0 = Some (length (render m))"
    using size_sections_write_sections [of m "[]"] w by simp
  have ok1: "fst (Dmod_Malloc h1)" and h2: "snd (Dmod_Malloc h1) = tl h1"
    using h1 by (simp_all add: Dmod_Malloc_ok)
  have gen: "dmini_generate_string h1 (Some m) = (GenBuffer (render m), tl h1)"
    using generate_string_granted [OF ok1 sz w] h2 by simp
  have a2: "alloc_ok (tl h1)"
    using h1 by (rule alloc_ok_tl)
  let ?h3 = "tl (tl (tl h1))"
  have a3: "alloc_ok ?h3" and a4: "alloc_ok (tl ?h3)"
    using a2 by (simp_all add: alloc_ok_tl)
  from parse_render [OF a4 wf] obtain h4 where
    loop: "parse_loop (tl ?h3) fresh_context (Some 0) (render m) = (DMINI_OK, m, h4)"
    by blast
  have parse: "dmini_parse_string ?h3 (Some fresh_context) (Some (render m)) = (DMINI_OK, Some m, h4)"
    using loop by (simp add: dmini_parse_string_def string_duplicate_ok [OF a3] fresh_context_def)
  from dmini_create_ok [OF assms(1)] run gen dmini_create_ok [OF a2] parse
  show ?thesis by blast
qed

theorem round_trip_storable_witness:
  "alloc_ok [] \<and>
   list_all storable_operation
     [SetString (Some ''net'') (Some ''host'') (Some ''a=b''), SetInt None (Some ''port'') (- 42),
      SetString (Some ''net'') (Some ''host'') (Some ''x y'')] \<and>
   (\<exists>h0 m h1 h2 h3 h4.
      dmini_create [] = (Some fresh_context, h0) \<and>
      run_operations h0 (Some fresh_context)
        [SetString (Some ''net'') (Some ''host'') (Some ''a=b''), SetInt None (Some ''port'') (- 42),
         SetString (Some ''net'') (Some ''host'') (Some ''x y'')] = (Some m, h1) \<and>
      dmini_generate_string h1 (Some m) = (GenBuffer (render m), h2) \<and>
      dmini_create h2 = (Some fresh_context, h3) \<and>
      dmini_parse_string h3 (Some fresh_context) (Some (render m)) = (DMINI_OK, Some m, h4))"
proof -
  have a: "alloc_ok []"
    by (simp add: alloc_ok_def)
  have b: "list_all storable_operation
     [SetString (Some ''net'') (Some ''host'') (Some ''a=b''), SetInt None (Some ''port'') (- 42),
      SetString (Some ''net'') (Some ''host'') (Some ''x y'')]"
    by (simp add: storable_name_def storable_key_def storable_value_def trimmed_def one_line_def
        is_space_def is_eol_def)
  from round_trip_storable [OF a b] a b show ?thesis by blast
qed

text \<open>
  The other conditions of the amended claim are needed as well: a pair with an empty
  key or with a key that opens like a comment is written but not read back, and a
  section name is cut at its first \<^verbatim>\<open>]\<close>.
\<close>

lemma round_trip_loses_empty_key:
  "dmini_generate_string []
       (Some [\<lparr>sec_name = None, sec_pairs = [\<lparr>pair_key = '''', pair_value = Some ''v''\<rparr>]\<rparr>])
     = (GenBuffer (''=v'' @ [CHR 0x0A]), []) \<and>
   dmini_parse_string [] (Some fresh_context) (Some (''=v'' @ [CHR 0x0A]))
     = (DMINI_OK, Some fresh_context, [])"
proof -
  have l: "parse_line [] fresh_context (Some 0) ''=v'' = (DMINI_OK, fresh_context, Some 0, [])"
    by (rule parse_line_malformed) (simp add: malformed_line_def trim_whitespace_def is_space_def)
  have one: "\<forall>c\<in>set ''=v''. \<not> is_eol c" and nl: "is_eol (CHR 0x0A)"
    by (simp_all add: is_eol_def)
  have "parse_loop [] fresh_context (Some 0) (''=v'' @ CHR 0x0A # []) = (DMINI_OK, fresh_context, [])"
    unfolding parse_loop_line [OF one nl l] by (simp add: parse_loop_Nil)
  then show ?thesis
    by (simp add: dmini_parse_string_def string_duplicate_def Dmod_Malloc_def fresh_context_def
        dmini_generate_string_def)
qed

lemma round_trip_loses_comment_key:
  "dmini_generate_string []
       (Some [\<lparr>sec_name = None, sec_pairs = [\<lparr>pair_key = ''#k'', pair_value = Some ''v''\<rparr>]\<rparr>])
     = (GenBuffer (''#k=v'' @ [CHR 0x0A]), []) \<and>
   dmini_parse_string [] (Some fresh_context) (Some (''#k=v'' @ [CHR 0x0A]))
     = (DMINI_OK, Some fresh_context, [])"
proof -
  have l: "parse_line [] fresh_context (Some 0) ''#k=v'' = (DMINI_OK, fresh_context, Some 0, [])"
    by (simp add: parse_line_def trim_whitespace_def is_space_def)
  have one: "\<forall>c\<in>set ''#k=v''. \<not> is_eol c" and nl: "is_eol (CHR 0x0A)"
    by (simp_all add: is_eol_def)
  have "parse_loop [] fresh_context (Some 0) (''#k=v'' @ CHR 0x0A # []) = (DMINI_OK, fresh_context, [])"
    unfolding parse_loop_line [OF one nl l] by (simp add: parse_loop_Nil)
  then show ?thesis
    by (simp add: dmini_parse_string_def string_duplicate_def Dmod_Malloc_def fresh_context_def
        dmini_generate_string_def)
qed

lemma round_trip_cuts_section_name:
  "dmini_generate_string []
       (Some [\<lparr>sec_name = None, sec_pairs = []\<rparr>, \<lparr>sec_name = Some ''a]b'', sec_pairs = []\<rparr>])
     = (GenBuffer (''[a]b]'' @ [CHR 0x0A]), []) \<and>
   dmini_parse_string [] (Some fresh_context) (Some (''[a]b]'' @ [CHR 0x0A]))
     = (DMINI_OK, Some [\<lparr>sec_name = None, sec_pairs = []\<rparr>, \<lparr>sec_name = Some ''a'', sec_pairs = []\<rparr>], [])"
proof -
  have l: "parse_line [] fresh_context (Some 0) ''[a]b]''
      = (DMINI_OK, [\<lparr>sec_name = None, sec_pairs = []\<rparr>, \<lparr>sec_name = Some ''a'', sec_pairs = []\<rparr>],
         Some 1, [])"
    by (simp add: parse_line_def trim_whitespace_def is_space_def fresh_context_def
        get_or_create_section_def create_section_def string_duplicate_def Dmod_Malloc_def)
  have one: "\<forall>c\<in>set ''[a]b]''. \<not> is_eol c" and nl: "is_eol (CHR 0x0A)"
    by (simp_all add: is_eol_def)
  have "parse_loop [] fresh_context (Some 0) (''[a]b]'' @ CHR 0x0A # [])
      = (DMINI_OK, [\<lparr>sec_name = None, sec_pairs = []\<rparr>, \<lparr>sec_name = Some ''a'', sec_pairs = []\<rparr>], [])"
    unfolding parse_loop_line [OF one nl l] by (simp add: parse_loop_Nil)
  then show ?thesis
    by (simp add: dmini_parse_string_def string_duplicate_def Dmod_Malloc_def fresh_context_def
        dmini_generate_string_def)
qed

end
